theory Spec2Isabelle
  imports Complex_Main "HOL-Library.Log_Nat" "HOL-Library.Sublist"
begin

section \<open>Python values used by the two converters\<close>

text \<open>
  The repository holds two scripts, \<^verbatim>\<open>CapEdify/srt_to_jsx.py\<close> and
  \<^verbatim>\<open>CapEdify/srt_to_jsx_converter.py\<close>. Both read a SubRip document, parse it into a
  list of dictionaries and print an After Effects script. This theory embeds both, function
  by function. Where the two files define a function of the same name, the one of
  \<^verbatim>\<open>srt_to_jsx_converter.py\<close> carries the suffix \<open>_conv\<close>.

  A Python \<^verbatim>\<open>str\<close> is modelled as a \<^typ>\<open>string\<close>: a list of characters with code
  points below 256. In that range the decimal digits (\<^verbatim>\<open>\d\<close>, \<^verbatim>\<open>int\<close>, \<^verbatim>\<open>float\<close>) are
  \<^verbatim>\<open>0\<close> to \<^verbatim>\<open>9\<close>, and the white-space characters of \<^verbatim>\<open>\s\<close> and \<^verbatim>\<open>str.strip\<close> are
  the twelve listed in \<open>py_isspace\<close>. The constructors \<^verbatim>\<open>int\<close> and \<^verbatim>\<open>float\<close> trim
  fewer: they leave the four separators \<^verbatim>\<open>\x1c\<close> to \<^verbatim>\<open>\x1f\<close> in place (\<open>num_isspace\<close>).
\<close>

datatype py_error =
    ValueError
  | IndexError
  | OverflowError
  | ZeroDivisionError
  | OSError
  | FileNotFound string
  | NoCaptions

definition LF :: char where
  "LF = CHR 0x0A"

definition DQ :: char where
  "DQ = CHR 0x22"

definition BS :: char where
  "BS = CHR 0x5C"

definition py_isspace :: "char \<Rightarrow> bool" where
  "py_isspace c = (c \<in> set [CHR 0x09, CHR 0x0A, CHR 0x0B, CHR 0x0C, CHR 0x0D,
     CHR 0x1C, CHR 0x1D, CHR 0x1E, CHR 0x1F, CHR 0x20, CHR 0x85, CHR 0xA0])"

definition py_isdigit :: "char \<Rightarrow> bool" where
  "py_isdigit c = (c \<in> set ''0123456789'')"

definition digit_val :: "char \<Rightarrow> nat" where
  "digit_val c = of_char c - 48"

subsection \<open>String methods\<close>

text \<open>\<^verbatim>\<open>s.strip()\<close>: white space removed at both ends.\<close>

definition py_strip :: "string \<Rightarrow> string" where
  "py_strip s = rev (dropWhile py_isspace (rev (dropWhile py_isspace s)))"

text \<open>
  The white space that \<^verbatim>\<open>int(s)\<close> and \<^verbatim>\<open>float(s)\<close> skip at both ends of \<^verbatim>\<open>s\<close>: the
  six characters of C's \<^verbatim>\<open>isspace\<close>, and the two white-space characters above 127, which
  are first turned into spaces.
\<close>

definition num_isspace :: "char \<Rightarrow> bool" where
  "num_isspace c = (c \<in> set [CHR 0x09, CHR 0x0A, CHR 0x0B, CHR 0x0C, CHR 0x0D, CHR 0x20,
     CHR 0x85, CHR 0xA0])"

definition num_strip :: "string \<Rightarrow> string" where
  "num_strip s = rev (dropWhile num_isspace (rev (dropWhile num_isspace s)))"

text \<open>\<^verbatim>\<open>s.split(sep)\<close> for a separator of one character (\<^verbatim>\<open>':'\<close> and \<^verbatim>\<open>'\n'\<close>).\<close>

fun cons_head :: "char \<Rightarrow> string list \<Rightarrow> string list" where
  "cons_head c [] = [[c]]"
| "cons_head c (p # ps) = (c # p) # ps"

fun py_split :: "char \<Rightarrow> string \<Rightarrow> string list" where
  "py_split sep [] = [[]]"
| "py_split sep (c # cs) =
     (if c = sep then [] # py_split sep cs else cons_head c (py_split sep cs))"

text \<open>
  \<^verbatim>\<open>s.split(sep)\<close> for a separator string, scanning left to right for
  non-overlapping occurrences. Python raises \<^verbatim>\<open>ValueError\<close> for the empty separator.
\<close>

function split_at_sep :: "string \<Rightarrow> string \<Rightarrow> string list" where
  "split_at_sep sep [] = [[]]"
| "split_at_sep sep (c # cs) =
     (if sep \<noteq> [] \<and> prefix sep (c # cs)
      then [] # split_at_sep sep (drop (length sep) (c # cs))
      else cons_head c (split_at_sep sep cs))"
  by pat_completeness auto
termination
  by (relation "measure (\<lambda>(sep, s). length s)") auto

definition py_split_str :: "string \<Rightarrow> string \<Rightarrow> py_error + string list" where
  "py_split_str sep s = (if sep = [] then Inl ValueError else Inr (split_at_sep sep s))"

text \<open>\<^verbatim>\<open>s.replace(old, new)\<close> where \<^verbatim>\<open>old\<close> is one character.\<close>

definition py_replace_chr :: "char \<Rightarrow> string \<Rightarrow> string \<Rightarrow> string" where
  "py_replace_chr old new s = concat (map (\<lambda>c. if c = old then new else [c]) s)"

text \<open>
  \<^verbatim>\<open>s.replace(old, new)\<close> in general: non-overlapping occurrences from the left; for
  the empty \<^verbatim>\<open>old\<close> Python inserts \<^verbatim>\<open>new\<close> before every character and at the end.
\<close>

function replace_from :: "string \<Rightarrow> string \<Rightarrow> string \<Rightarrow> string" where
  "replace_from old new [] = []"
| "replace_from old new (c # cs) =
     (if old \<noteq> [] \<and> prefix old (c # cs)
      then new @ replace_from old new (drop (length old) (c # cs))
      else c # replace_from old new cs)"
  by pat_completeness auto
termination
  by (relation "measure (\<lambda>(old, new, s). length s)") auto

definition py_replace :: "string \<Rightarrow> string \<Rightarrow> string \<Rightarrow> string" where
  "py_replace old new s =
     (if old = [] then new @ concat (map (\<lambda>c. c # new) s) else replace_from old new s)"

text \<open>\<^verbatim>\<open>sep.join(xs)\<close>.\<close>

fun py_join :: "string \<Rightarrow> string list \<Rightarrow> string" where
  "py_join sep [] = []"
| "py_join sep [x] = x"
| "py_join sep (x # y # ys) = x @ sep @ py_join sep (y # ys)"

subsection \<open>Floats\<close>

text \<open>
  A Python \<^verbatim>\<open>float\<close> is an IEEE 754 binary64 number. A finite one is modelled by the
  rational it denotes (the sign of zero is not kept); \<open>round_binary64\<close> rounds a rational
  to the nearest binary64 number, ties to the even significand, with gradual underflow
  below \<open>2 ^ - 1022\<close> and overflow from \<open>2 ^ 1024\<close> on.
\<close>

datatype pyfloat = Finite rat | PosInf | NegInf | NaN

definition pow2 :: "int \<Rightarrow> rat" where
  "pow2 e = (if 0 \<le> e then 2 ^ nat e else 1 / 2 ^ nat (- e))"

definition round_half_even :: "rat \<Rightarrow> int" where
  "round_half_even q =
     (let f = \<lfloor>q\<rfloor>; d = q - of_int f
      in if d < 1 / 2 then f
         else if 1 / 2 < d then f + 1
         else if even f then f else f + 1)"

text \<open>For \<open>0 < x\<close>, the exponent \<open>e\<close> with \<open>2 ^ e \<le> x < 2 ^ (e + 1)\<close>.\<close>

definition binade :: "rat \<Rightarrow> int" where
  "binade x =
     (let e0 = bitlen (fst (quotient_of x)) - bitlen (snd (quotient_of x))
      in if pow2 e0 \<le> x then e0 else e0 - 1)"

definition round_binary64 :: "rat \<Rightarrow> pyfloat" where
  "round_binary64 x =
     (if x = 0 then Finite 0
      else
        let a = \<bar>x\<bar>;
            u = pow2 (max (binade a) (- 1022) - 52);
            r = of_int (round_half_even (a / u)) * u
        in if pow2 1024 \<le> r then (if 0 < x then PosInf else NegInf)
           else Finite (if 0 < x then r else - r))"

text \<open>Float addition, as \<^verbatim>\<open>x + y\<close> computes it.\<close>

fun float_add :: "pyfloat \<Rightarrow> pyfloat \<Rightarrow> pyfloat" where
  "float_add (Finite a) (Finite b) = round_binary64 (a + b)"
| "float_add NaN y = NaN"
| "float_add x NaN = NaN"
| "float_add PosInf NegInf = NaN"
| "float_add NegInf PosInf = NaN"
| "float_add PosInf y = PosInf"
| "float_add NegInf y = NegInf"
| "float_add x PosInf = PosInf"
| "float_add x NegInf = NegInf"

text \<open>\<^verbatim>\<open>x > y\<close> on floats: false whenever a NaN is involved.\<close>

fun float_gt :: "pyfloat \<Rightarrow> pyfloat \<Rightarrow> bool" where
  "float_gt NaN y = False"
| "float_gt x NaN = False"
| "float_gt (Finite a) (Finite b) = (b < a)"
| "float_gt PosInf PosInf = False"
| "float_gt PosInf y = True"
| "float_gt x PosInf = False"
| "float_gt NegInf y = False"
| "float_gt x NegInf = True"

text \<open>
  The conversion of an \<^verbatim>\<open>int\<close> operand of a mixed \<^verbatim>\<open>int + float\<close> sum: correctly
  rounded, and \<^verbatim>\<open>OverflowError\<close> when the integer is beyond the float range.
\<close>

definition int_to_float :: "int \<Rightarrow> py_error + pyfloat" where
  "int_to_float n =
     (case round_binary64 (of_int n) of
        Finite r \<Rightarrow> Inr (Finite r)
      | _ \<Rightarrow> Inl OverflowError)"

subsection \<open>\<^verbatim>\<open>int(s)\<close> and \<^verbatim>\<open>float(s)\<close> on strings\<close>

text \<open>
  A digit part is a non-empty run of digits in which single underscores may stand
  between two digits.
\<close>

fun digitpart :: "string \<Rightarrow> bool" where
  "digitpart [] = False"
| "digitpart [c] = py_isdigit c"
| "digitpart (c # d # r) =
     (py_isdigit c \<and> (if d = CHR ''_'' then digitpart r else digitpart (d # r)))"

definition digits_val :: "string \<Rightarrow> nat" where
  "digits_val ds = foldl (\<lambda>a c. 10 * a + digit_val c) 0 (filter py_isdigit ds)"

definition split_sign :: "string \<Rightarrow> bool \<times> string" where
  "split_sign t =
     (case t of
        [] \<Rightarrow> (False, [])
      | c # r \<Rightarrow> if c = CHR ''-'' then (True, r)
                 else if c = CHR ''+'' then (False, r)
                 else (False, t))"

text \<open>
  \<^verbatim>\<open>int(s)\<close> in base ten: white space trimmed, an optional sign, a digit part of at most
  \<^verbatim>\<open>sys.get_int_max_str_digits()\<close> digits, which is 4300 unless the interpreter is told
  otherwise. \<open>None\<close> stands for the \<^verbatim>\<open>ValueError\<close>.
\<close>

definition int_max_str_digits :: nat where
  "int_max_str_digits = 4300"

definition py_int :: "string \<Rightarrow> int option" where
  "py_int s =
     (let (neg, body) = split_sign (num_strip s)
      in if digitpart body \<and> length (filter py_isdigit body) \<le> int_max_str_digits
         then Some (if neg then - int (digits_val body) else int (digits_val body))
         else None)"

definition lower_chr :: "char \<Rightarrow> char" where
  "lower_chr c =
     (let n = (of_char c :: nat) in if 65 \<le> n \<and> n \<le> 90 then char_of (n + 32) else c)"

definition pow10 :: "int \<Rightarrow> rat" where
  "pow10 e = (if 0 \<le> e then 10 ^ nat e else 1 / 10 ^ nat (- e))"

text \<open>
  The number part of a float literal:
  \<^verbatim>\<open>number ::= [digitpart] "." digitpart | digitpart ["."]\<close> and
  \<^verbatim>\<open>exponent ::= ("e" | "E") [sign] digitpart\<close>. The result is the exact decimal value.
\<close>

definition is_e :: "char \<Rightarrow> bool" where
  "is_e c = (c = CHR ''e'' \<or> c = CHR ''E'')"

definition float_number :: "string \<Rightarrow> rat option" where
  "float_number t =
     (let mant = takeWhile (\<lambda>c. \<not> is_e c) t;
          etail = dropWhile (\<lambda>c. \<not> is_e c) t;
          ip = takeWhile (\<lambda>c. c \<noteq> CHR ''.'') mant;
          ftail = dropWhile (\<lambda>c. c \<noteq> CHR ''.'') mant;
          fp = drop 1 ftail;
          mant_ok = (if ftail = [] then digitpart ip
                     else (ip = [] \<or> digitpart ip) \<and> (fp = [] \<or> digitpart fp)
                          \<and> (ip \<noteq> [] \<or> fp \<noteq> []));
          (eneg, edigits) = split_sign (drop 1 etail);
          exp_ok = (etail = [] \<or> digitpart edigits);
          ex = (if etail = [] then 0
                else if eneg then - int (digits_val edigits) else int (digits_val edigits));
          m = int (digits_val (ip @ fp));
          k = ex - int (length (filter py_isdigit fp))
      in if mant_ok \<and> exp_ok then Some (of_int m * pow10 k) else None)"

text \<open>
  \<^verbatim>\<open>float(s)\<close>: white space trimmed, an optional sign, then \<^verbatim>\<open>inf\<close>,
  \<^verbatim>\<open>infinity\<close> or \<^verbatim>\<open>nan\<close> in any letter case, or a number, correctly rounded.
  \<open>None\<close> stands for the \<^verbatim>\<open>ValueError\<close>.
\<close>

definition py_float :: "string \<Rightarrow> pyfloat option" where
  "py_float s =
     (let (neg, body) = split_sign (num_strip s);
          low = map lower_chr body
      in if low = ''inf'' \<or> low = ''infinity'' then Some (if neg then NegInf else PosInf)
         else if low = ''nan'' then Some NaN
         else (case float_number body of
                 None \<Rightarrow> None
               | Some q \<Rightarrow> Some (round_binary64 (if neg then - q else q))))"

section \<open>The timestamp converter\<close>

text \<open>
  \<^verbatim>\<open>parse_srt_time\<close> is the same function in both files:
  \<^verbatim>\<open>
  time_str = time_str.replace(',', '.')
  parts = time_str.split(':')
  hours = int(parts[0])
  minutes = int(parts[1])
  seconds = float(parts[2])
  return hours * 3600 + minutes * 60 + seconds\<close>
  Each statement that can raise is a branch: \<^verbatim>\<open>int\<close> and \<^verbatim>\<open>float\<close> raise
  \<^verbatim>\<open>ValueError\<close>, an index beyond the list raises \<^verbatim>\<open>IndexError\<close>, and the sum of the
  integer \<^verbatim>\<open>hours * 3600 + minutes * 60\<close> and the float raises \<^verbatim>\<open>OverflowError\<close> when
  the integer does not fit a float.
\<close>

definition parse_srt_time :: "string \<Rightarrow> py_error + pyfloat" where
  "parse_srt_time time_str =
     (let parts = py_split (CHR '':'') (py_replace_chr (CHR '','') ''.'' time_str)
      in (case py_int (parts ! 0) of
            None \<Rightarrow> Inl ValueError
          | Some hours \<Rightarrow>
              (if length parts < 2 then Inl IndexError
               else (case py_int (parts ! 1) of
                       None \<Rightarrow> Inl ValueError
                     | Some minutes \<Rightarrow>
                         (if length parts < 3 then Inl IndexError
                          else (case py_float (parts ! 2) of
                                  None \<Rightarrow> Inl ValueError
                                | Some seconds \<Rightarrow>
                                    (case int_to_float (hours * 3600 + minutes * 60) of
                                       Inl e \<Rightarrow> Inl e
                                     | Inr n \<Rightarrow> Inr (float_add n seconds))))))))"

section \<open>The two regular expressions\<close>

text \<open>
  \<^verbatim>\<open>re.split(r'\n\s*\n', s)\<close>. A match starts at a line feed; the greedy \<^verbatim>\<open>\s*\<close> takes
  the whole white-space run that follows and gives characters back until the last of them
  can be the closing line feed. So the match ends after the last line feed of that run, and
  there is no match at a line feed whose run holds no further line feed. \<open>blank_gap cs\<close>
  is the number of characters of \<open>cs\<close> the match takes after its first line feed.
\<close>

definition blank_gap :: "string \<Rightarrow> nat option" where
  "blank_gap cs =
     (let run = takeWhile py_isspace cs
      in if LF \<in> set run
         then Some (length run - length (takeWhile (\<lambda>c. c \<noteq> LF) (rev run)))
         else None)"

function re_split_blocks :: "string \<Rightarrow> string list" where
  "re_split_blocks [] = [[]]"
| "re_split_blocks (c # cs) =
     (if c = LF
      then (case blank_gap cs of
              Some k \<Rightarrow> [] # re_split_blocks (drop k cs)
            | None \<Rightarrow> cons_head c (re_split_blocks cs))
      else cons_head c (re_split_blocks cs))"
  by pat_completeness auto
termination
  by (relation "measure length") auto

text \<open>
  \<^verbatim>\<open>re.match(r'(\d{2}:\d{2}:\d{2},\d{3})\s*-->\s*(\d{2}:\d{2}:\d{2},\d{3})', time_line)\<close>
  matches at the start of the line and leaves the rest of the line unread. Each \<^verbatim>\<open>\s*\<close>
  is followed by a character that is not white space, so only the longest run can match.
  The result is the pair of the two groups.
\<close>

datatype atom = Digit | Lit char

fun atom_ok :: "atom \<Rightarrow> char \<Rightarrow> bool" where
  "atom_ok Digit c = py_isdigit c"
| "atom_ok (Lit l) c = (c = l)"

fun match_seq :: "atom list \<Rightarrow> string \<Rightarrow> string option" where
  "match_seq [] s = Some s"
| "match_seq (a # as) [] = None"
| "match_seq (a # as) (c # cs) = (if atom_ok a c then match_seq as cs else None)"

definition timestamp_pat :: "atom list" where
  "timestamp_pat =
     [Digit, Digit, Lit (CHR '':''), Digit, Digit, Lit (CHR '':''), Digit, Digit,
      Lit (CHR '',''), Digit, Digit, Digit]"

definition arrow_pat :: "atom list" where
  "arrow_pat = [Lit (CHR ''-''), Lit (CHR ''-''), Lit (CHR ''>'')]"

definition re_match_time_line :: "string \<Rightarrow> (string \<times> string) option" where
  "re_match_time_line time_line =
     (case match_seq timestamp_pat time_line of
        None \<Rightarrow> None
      | Some r1 \<Rightarrow>
          (case match_seq arrow_pat (dropWhile py_isspace r1) of
             None \<Rightarrow> None
           | Some r2 \<Rightarrow>
               (case match_seq timestamp_pat (dropWhile py_isspace r2) of
                  None \<Rightarrow> None
                | Some r3 \<Rightarrow>
                    Some (take 12 time_line, take 12 (dropWhile py_isspace r2)))))"

section \<open>The block parser of \<^verbatim>\<open>srt_to_jsx.py\<close>\<close>

text \<open>
  The dictionaries this parser appends have the keys \<^verbatim>\<open>start\<close>, \<^verbatim>\<open>end\<close> and
  \<^verbatim>\<open>text\<close>; the first line of a block is skipped.
\<close>

record subtitle =
  sub_start :: pyfloat
  sub_end :: pyfloat
  sub_text :: string

text \<open>
  The body of the loop over the blocks: \<open>Inr None\<close> when the block adds nothing,
  \<open>Inr (Some d)\<close> when it appends \<open>d\<close>, \<open>Inl e\<close> when a statement raises \<open>e\<close>.
  \<^verbatim>\<open>
  lines = block.strip().split('\n')
  if len(lines) >= 3:
      time_line = lines[1]
      text_lines = lines[2:]
      time_match = re.match(..., time_line)
      if time_match:
          start_time = parse_srt_time(time_match.group(1))
          end_time = parse_srt_time(time_match.group(2))
          text = ' '.join(text_lines).strip()
          text = text.replace('"', '\\"').replace('\n', '\\r')
          subtitles.append({'start': start_time, 'end': end_time, 'text': text})\<close>
\<close>

definition block_lines :: "string \<Rightarrow> string list" where
  "block_lines block = py_split LF (py_strip block)"

definition clean_text :: "string list \<Rightarrow> string" where
  "clean_text text_lines =
     py_replace_chr LF [BS, CHR ''r'']
       (py_replace_chr DQ [BS, DQ] (py_strip (py_join '' '' text_lines)))"

definition parse_block :: "string \<Rightarrow> py_error + subtitle option" where
  "parse_block block =
     (let lines = block_lines block
      in if 3 \<le> length lines
         then (case re_match_time_line (lines ! 1) of
                 None \<Rightarrow> Inr None
               | Some (g1, g2) \<Rightarrow>
                   (case parse_srt_time g1 of
                      Inl e \<Rightarrow> Inl e
                    | Inr start_time \<Rightarrow>
                        (case parse_srt_time g2 of
                           Inl e \<Rightarrow> Inl e
                         | Inr end_time \<Rightarrow>
                             Inr (Some \<lparr>sub_start = start_time, sub_end = end_time,
                                        sub_text = clean_text (drop 2 lines)\<rparr>))))
         else Inr None)"

fun parse_blocks :: "subtitle list \<Rightarrow> string list \<Rightarrow> py_error + subtitle list" where
  "parse_blocks subtitles [] = Inr subtitles"
| "parse_blocks subtitles (block # blocks) =
     (case parse_block block of
        Inl e \<Rightarrow> Inl e
      | Inr None \<Rightarrow> parse_blocks subtitles blocks
      | Inr (Some d) \<Rightarrow> parse_blocks (subtitles @ [d]) blocks)"

text \<open>
  \<open>parse_srt_text\<close> is \<^verbatim>\<open>parse_srt_file\<close> from the point where the file's content has
  been read: \<^verbatim>\<open>blocks = re.split(r'\n\s*\n', content.strip())\<close> and the loop.
\<close>

definition parse_srt_text :: "string \<Rightarrow> py_error + subtitle list" where
  "parse_srt_text content = parse_blocks [] (re_split_blocks (py_strip content))"

section \<open>The block parser of \<^verbatim>\<open>srt_to_jsx_converter.py\<close>\<close>

text \<open>
  This parser keeps the first line and has no guard on the timing line: it splits the
  second line on \<^verbatim>\<open>' --> '\<close> and unpacks the result into two names, which raises
  \<^verbatim>\<open>ValueError\<close> unless there are exactly two parts.
  \<^verbatim>\<open>
  lines = block.strip().split('\n')
  if len(lines) >= 3:
      seq_num = lines[0].strip()
      time_line = lines[1].strip()
      start_time, end_time = time_line.split(' --> ')
      text = '\n'.join(lines[2:]).strip()
      captions.append({'sequence': seq_num, 'start': parse_srt_time(start_time),
                       'end': parse_srt_time(end_time), 'text': text})\<close>
\<close>

record caption =
  cap_sequence :: string
  cap_start :: pyfloat
  cap_end :: pyfloat
  cap_text :: string

definition parse_block_conv :: "string \<Rightarrow> py_error + caption option" where
  "parse_block_conv block =
     (let lines = block_lines block
      in if 3 \<le> length lines
         then (let seq_num = py_strip (lines ! 0);
                   time_line = py_strip (lines ! 1)
               in (case py_split_str '' --> '' time_line of
                     Inl e \<Rightarrow> Inl e
                   | Inr ps \<Rightarrow>
                       (if length ps \<noteq> 2 then Inl ValueError
                        else (let txt = py_strip (py_join [LF] (drop 2 lines))
                              in (case parse_srt_time (ps ! 0) of
                                    Inl e \<Rightarrow> Inl e
                                  | Inr start_time \<Rightarrow>
                                      (case parse_srt_time (ps ! 1) of
                                         Inl e \<Rightarrow> Inl e
                                       | Inr end_time \<Rightarrow>
                                           Inr (Some \<lparr>cap_sequence = seq_num,
                                                      cap_start = start_time,
                                                      cap_end = end_time,
                                                      cap_text = txt\<rparr>)))))))
         else Inr None)"

fun parse_blocks_conv :: "caption list \<Rightarrow> string list \<Rightarrow> py_error + caption list" where
  "parse_blocks_conv captions [] = Inr captions"
| "parse_blocks_conv captions (block # blocks) =
     (case parse_block_conv block of
        Inl e \<Rightarrow> Inl e
      | Inr None \<Rightarrow> parse_blocks_conv captions blocks
      | Inr (Some d) \<Rightarrow> parse_blocks_conv (captions @ [d]) blocks)"

definition parse_srt_text_conv :: "string \<Rightarrow> py_error + caption list" where
  "parse_srt_text_conv content = parse_blocks_conv [] (re_split_blocks (py_strip content))"

section \<open>The script generators\<close>

text \<open>
  What the interpreter and its library supply is taken as a parameter: how a float is
  printed (\<^verbatim>\<open>repr\<close> and the format \<^verbatim>\<open>.3f\<close>), the text of
  \<^verbatim>\<open>datetime.now().strftime(...)\<close>, and the functions of \<^verbatim>\<open>os.path\<close>.
\<close>

record runtime =
  repr_float :: "pyfloat \<Rightarrow> string"
  format_3f :: "pyfloat \<Rightarrow> string"
  now_str :: string
  path_basename :: "string \<Rightarrow> string"
  path_dirname :: "string \<Rightarrow> string"
  path_splitext :: "string \<Rightarrow> string \<times> string"
  path_join :: "string \<Rightarrow> string \<Rightarrow> string"

definition digit_chr :: "nat \<Rightarrow> char" where
  "digit_chr d = char_of (48 + d)"

function show_nat :: "nat \<Rightarrow> string" where
  "show_nat n = (if n < 10 then [digit_chr n] else show_nat (n div 10) @ [digit_chr (n mod 10)])"
  by pat_completeness auto
termination
  by (relation "measure id") auto

definition show_int :: "int \<Rightarrow> string" where
  "show_int k = (if k < 0 then CHR ''-'' # show_nat (nat (- k)) else show_nat (nat k))"

definition unlines :: "string list \<Rightarrow> string" where
  "unlines ls = concat (map (\<lambda>l. l @ [LF]) ls)"

text \<open>\<^verbatim>\<open>a / b\<close> on two integers: the correctly rounded quotient.\<close>

definition py_truediv :: "int \<Rightarrow> int \<Rightarrow> py_error + pyfloat" where
  "py_truediv a b =
     (if b = 0 then Inl ZeroDivisionError
      else (case round_binary64 (of_int a / of_int b) of
              Finite r \<Rightarrow> Inr (Finite r)
            | _ \<Rightarrow> Inl OverflowError))"

text \<open>
  \<^verbatim>\<open>max(xs)\<close> on a list of floats: the first element, replaced by each later one that
  compares greater; \<^verbatim>\<open>ValueError\<close> on the empty list.
\<close>

fun max_from :: "pyfloat \<Rightarrow> pyfloat list \<Rightarrow> pyfloat" where
  "max_from m [] = m"
| "max_from m (x # xs) = max_from (if float_gt x m then x else m) xs"

definition py_max :: "pyfloat list \<Rightarrow> py_error + pyfloat" where
  "py_max xs = (case xs of [] \<Rightarrow> Inl ValueError | x # r \<Rightarrow> Inr (max_from x r))"

subsection \<open>\<^verbatim>\<open>generate_jsx\<close> of \<^verbatim>\<open>srt_to_jsx.py\<close>\<close>

text \<open>
  The script holds one entry of the array \<^verbatim>\<open>captions\<close> for each dictionary and one loop
  that creates the layers when the script runs. The duration of the composition is the
  constant \<^verbatim>\<open>60\<close>.
\<close>

definition jsx_header :: "string \<Rightarrow> int \<Rightarrow> int \<Rightarrow> int \<Rightarrow> string" where
  "jsx_header comp_name width height fps = unlines
     [''// Auto-generated After Effects caption script'',
      ''// Created from SRT file conversion'',
      [],
      ''// Create new composition'',
      ''var comp = app.project.items.addComp('' @ [DQ] @ comp_name @ [DQ] @ '', ''
         @ show_int width @ '', '' @ show_int height @ '', 1, 60, '' @ show_int fps @ '');'',
      [],
      ''// Caption data'',
      ''var captions = ['']"

definition jsx_entry :: "runtime \<Rightarrow> subtitle \<Rightarrow> string" where
  "jsx_entry rt sub =
     ''    {start: '' @ format_3f rt (sub_start sub) @ '', end: '' @ format_3f rt (sub_end sub)
       @ '', text: '' @ [DQ] @ sub_text sub @ [DQ] @ ''}''"

definition jsx_footer :: string where
  "jsx_footer = unlines
     [''];'',
      [],
      ''// Create text layers for each caption'',
      ''for (var i = 0; i < captions.length; i++) {'',
      ''    var entry = captions[i];'',
      ''    '',
      ''    // Create text layer'',
      ''    var textLayer = comp.layers.addText(entry.text);'',
      ''    '',
      ''    // Set timing'',
      ''    textLayer.startTime = entry.start;'',
      ''    textLayer.outPoint = entry.end;'',
      ''    textLayer.inPoint = entry.start;'',
      ''    '',
      ''    // Basic styling'',
      ''    var textProp = textLayer.property('' @ [DQ] @ ''Source Text'' @ [DQ] @ '');'',
      ''    var textDocument = textProp.value;'',
      ''    textDocument.fontSize = 48;'',
      ''    textDocument.fillColor = [1, 1, 1]; // White'',
      ''    textDocument.font = '' @ [DQ] @ ''Arial'' @ [DQ] @ '';'',
      ''    textDocument.justification = ParagraphJustification.CENTER_JUSTIFY;'',
      ''    textProp.setValue(textDocument);'',
      ''    '',
      ''    // Position at bottom center'',
      ''    var position = textLayer.property('' @ [DQ] @ ''Transform'' @ [DQ] @ '').property(''
         @ [DQ] @ ''Position'' @ [DQ] @ '');'',
      ''    position.setValue([comp.width/2, comp.height - 100]);'',
      ''    '',
      ''    // Add subtle drop shadow'',
      ''    var dropShadow = textLayer.property('' @ [DQ] @ ''Effects'' @ [DQ] @ '').addProperty(''
         @ [DQ] @ ''Drop Shadow'' @ [DQ] @ '');'',
      ''    dropShadow.property('' @ [DQ] @ ''Opacity'' @ [DQ] @ '').setValue(75);'',
      ''    dropShadow.property('' @ [DQ] @ ''Direction'' @ [DQ] @ '').setValue(135);'',
      ''    dropShadow.property('' @ [DQ] @ ''Distance'' @ [DQ] @ '').setValue(5);'',
      ''    dropShadow.property('' @ [DQ] @ ''Softness'' @ [DQ] @ '').setValue(10);'',
      ''}'',
      [],
      ''alert('' @ [DQ] @ ''Caption import complete! '' @ [DQ] @ '' + captions.length + '' @ [DQ]
         @ '' subtitles added to composition.'' @ [DQ] @ '');'']"

text \<open>
  The loop \<^verbatim>\<open>for i, sub in enumerate(subtitles)\<close>: \<open>n\<close> is \<^verbatim>\<open>len(subtitles)\<close>, \<open>i\<close>
  the index of the head of the remaining list, \<open>jsx\<close> the text built so far.
\<close>

fun add_entries :: "runtime \<Rightarrow> nat \<Rightarrow> nat \<Rightarrow> string \<Rightarrow> subtitle list \<Rightarrow> string" where
  "add_entries rt n i jsx [] = jsx"
| "add_entries rt n i jsx (sub # subs) =
     add_entries rt n (Suc i)
       (jsx @ jsx_entry rt sub @ (if int i < int n - 1 then '','' else []) @ [LF]) subs"

definition generate_jsx ::
  "runtime \<Rightarrow> subtitle list \<Rightarrow> string \<Rightarrow> int \<Rightarrow> int \<Rightarrow> int \<Rightarrow> string" where
  "generate_jsx rt subtitles comp_name width height fps =
     add_entries rt (length subtitles) 0 (jsx_header comp_name width height fps) subtitles
       @ jsx_footer"

subsection \<open>\<^verbatim>\<open>generate_jsx_script\<close> of \<^verbatim>\<open>srt_to_jsx_converter.py\<close>\<close>

text \<open>
  The header holds the duration \<^verbatim>\<open>max([cap['end'] for cap in captions]) + 2\<close>; each
  caption adds one block of statements that creates and styles its own layer.
\<close>

definition script_header ::
  "runtime \<Rightarrow> string \<Rightarrow> int \<Rightarrow> int \<Rightarrow> pyfloat \<Rightarrow> int \<Rightarrow> string" where
  "script_header rt comp_name comp_width comp_height duration fps = unlines
     [''// Auto-generated After Effects script from SRT file'',
      ''// Generated on: '' @ now_str rt,
      [],
      ''// Create new composition'',
      ''var comp = app.project.items.addComp('' @ [DQ] @ comp_name @ [DQ] @ '', ''
         @ show_int comp_width @ '', '' @ show_int comp_height @ '', 1, ''
         @ repr_float rt duration @ '', '' @ show_int fps @ '');'',
      [],
      ''// Style settings'',
      ''var fontSize = 48;'',
      ''var fontFamily = '' @ [DQ] @ ''Arial-BoldMT'' @ [DQ] @ '';'',
      ''var textColor = [1, 1, 1]; // White'',
      ''var strokeColor = [0, 0, 0]; // Black'',
      ''var strokeWidth = 3;'',
      [],
      ''// Add captions'']"

text \<open>\<^verbatim>\<open>caption['text'].replace('"', '\\"').replace('\n', '\\n')\<close>\<close>

definition safe_text :: "string \<Rightarrow> string" where
  "safe_text t = py_replace_chr LF [BS, CHR ''n''] (py_replace_chr DQ [BS, DQ] t)"

definition caption_block ::
  "runtime \<Rightarrow> int \<Rightarrow> int \<Rightarrow> nat \<Rightarrow> caption \<Rightarrow> py_error + string" where
  "caption_block rt comp_width comp_height i cap =
     (let k = show_nat (i + 1)
      in (case py_truediv comp_width 2 of
            Inl e \<Rightarrow> Inl e
          | Inr half \<Rightarrow> Inr ([LF] @ unlines
     [''// Caption '' @ k @ '': '' @ cap_sequence cap,
      ''var textLayer'' @ k @ '' = comp.layers.addText('' @ [DQ] @ safe_text (cap_text cap)
         @ [DQ] @ '');'',
      ''var textProp'' @ k @ '' = textLayer'' @ k @ ''.property('' @ [DQ] @ ''Source Text''
         @ [DQ] @ '');'',
      ''var textDocument'' @ k @ '' = textProp'' @ k @ ''.value;'',
      ''textDocument'' @ k @ ''.fontSize = fontSize;'',
      ''textDocument'' @ k @ ''.font = fontFamily;'',
      ''textDocument'' @ k @ ''.fillColor = textColor;'',
      ''textDocument'' @ k @ ''.strokeColor = strokeColor;'',
      ''textDocument'' @ k @ ''.strokeWidth = strokeWidth;'',
      ''textDocument'' @ k @ ''.strokeOverFill = false;'',
      ''textDocument'' @ k @ ''.applyStroke = true;'',
      ''textDocument'' @ k @ ''.justification = ParagraphJustification.CENTER_JUSTIFY;'',
      ''textProp'' @ k @ ''.setValue(textDocument'' @ k @ '');'',
      [],
      ''// Position and timing'',
      ''textLayer'' @ k @ ''.startTime = '' @ repr_float rt (cap_start cap) @ '';'',
      ''textLayer'' @ k @ ''.outPoint = '' @ repr_float rt (cap_end cap) @ '';'',
      ''textLayer'' @ k @ ''.inPoint = '' @ repr_float rt (cap_start cap) @ '';'',
      [],
      ''// Position at bottom center'',
      ''var textPosition'' @ k @ '' = textLayer'' @ k @ ''.property('' @ [DQ] @ ''Transform''
         @ [DQ] @ '').property('' @ [DQ] @ ''Position'' @ [DQ] @ '');'',
      ''textPosition'' @ k @ ''.setValue(['' @ repr_float rt half @ '', ''
         @ show_int (comp_height - 100) @ '']);''])))"

definition script_footer :: string where
  "script_footer = [LF] @ unlines
     [''// Alert completion'',
      ''alert('' @ [DQ] @ ''Caption import complete! '' @ [DQ] @ '' + comp.layers.length + ''
         @ [DQ] @ '' text layers created.'' @ [DQ] @ '');'']"

fun add_captions ::
  "runtime \<Rightarrow> int \<Rightarrow> int \<Rightarrow> nat \<Rightarrow> string \<Rightarrow> caption list \<Rightarrow> py_error + string" where
  "add_captions rt comp_width comp_height i jsx [] = Inr jsx"
| "add_captions rt comp_width comp_height i jsx (cap # caps) =
     (case caption_block rt comp_width comp_height i cap of
        Inl e \<Rightarrow> Inl e
      | Inr b \<Rightarrow> add_captions rt comp_width comp_height (Suc i) (jsx @ b) caps)"

definition generate_jsx_script ::
  "runtime \<Rightarrow> caption list \<Rightarrow> string \<Rightarrow> int \<Rightarrow> int \<Rightarrow> int \<Rightarrow> py_error + string" where
  "generate_jsx_script rt captions comp_name comp_width comp_height fps =
     (case py_max (map cap_end captions) of
        Inl e \<Rightarrow> Inl e
      | Inr m \<Rightarrow>
          (case add_captions rt comp_width comp_height 0
                  (script_header rt comp_name comp_width comp_height
                     (float_add m (Finite 2)) fps)
                  captions of
             Inl e \<Rightarrow> Inl e
           | Inr jsx \<Rightarrow> Inr (jsx @ script_footer)))"

section \<open>Files and the two entry points\<close>

text \<open>
  The file system is a map from paths to the text stored there, with the paths that
  cannot be opened for writing. Every path that exists is taken to be a readable text
  file. Reading in text mode turns each \<^verbatim>\<open>\r\n\<close> and each lone \<^verbatim>\<open>\r\<close> into \<^verbatim>\<open>\n\<close>.
\<close>

record filesystem =
  files :: "string \<Rightarrow> string option"
  denied :: "string \<Rightarrow> bool"

definition CR :: char where
  "CR = CHR 0x0D"

fun universal_newlines :: "string \<Rightarrow> string" where
  "universal_newlines [] = []"
| "universal_newlines [c] = (if c = CR then [LF] else [c])"
| "universal_newlines (c # d # r) =
     (if c = CR \<and> d = LF then LF # universal_newlines r
      else if c = CR then LF # universal_newlines (d # r)
      else c # universal_newlines (d # r))"

definition path_exists :: "filesystem \<Rightarrow> string \<Rightarrow> bool" where
  "path_exists fs p = (files fs p \<noteq> None)"

definition read_text :: "filesystem \<Rightarrow> string \<Rightarrow> py_error + string" where
  "read_text fs p =
     (case files fs p of
        None \<Rightarrow> Inl (FileNotFound p)
      | Some raw \<Rightarrow> Inr (universal_newlines raw))"

definition write_text :: "filesystem \<Rightarrow> string \<Rightarrow> string \<Rightarrow> py_error + filesystem" where
  "write_text fs p s =
     (if denied fs p then Inl OSError else Inr (fs\<lparr>files := (files fs)(p \<mapsto> s)\<rparr>))"

text \<open>\<^verbatim>\<open>parse_srt_file(srt_path)\<close> of each file: read the document, then parse it.\<close>

definition parse_srt_file :: "filesystem \<Rightarrow> string \<Rightarrow> py_error + subtitle list" where
  "parse_srt_file fs srt_path =
     (case read_text fs srt_path of
        Inl e \<Rightarrow> Inl e
      | Inr content \<Rightarrow> parse_srt_text content)"

definition parse_srt_file_conv :: "filesystem \<Rightarrow> string \<Rightarrow> py_error + caption list" where
  "parse_srt_file_conv fs srt_path =
     (case read_text fs srt_path of
        Inl e \<Rightarrow> Inl e
      | Inr content \<Rightarrow> parse_srt_text_conv content)"

text \<open>
  \<^verbatim>\<open>convert_srt_to_jsx\<close> of \<^verbatim>\<open>srt_to_jsx.py\<close> returns a truth value and prints to the
  console; every exception of the parser, the generator and the write is caught and
  printed. The result is the returned value, the lines printed and the file system.
\<close>

datatype console =
    SrtNotFound string
  | Converting
  | InputPath string
  | OutputPath string
  | FoundEntries nat
  | NoValidSubtitles
  | ConversionComplete string
  | ErrorDuring py_error

definition convert_srt_to_jsx ::
  "runtime \<Rightarrow> filesystem \<Rightarrow> string \<Rightarrow> string option
     \<Rightarrow> bool \<times> console list \<times> filesystem" where
  "convert_srt_to_jsx rt fs srt_path jsx_path_arg =
     (if \<not> path_exists fs srt_path then (False, [SrtNotFound srt_path], fs)
      else
        (let jsx_path = (case jsx_path_arg of
                           None \<Rightarrow> py_replace ''.srt'' ''_captions.jsx'' srt_path
                         | Some p \<Rightarrow> p);
             out0 = [Converting, InputPath srt_path, OutputPath jsx_path]
         in (case parse_srt_file fs srt_path of
               Inl e \<Rightarrow> (False, out0 @ [ErrorDuring e], fs)
             | Inr subtitles \<Rightarrow>
                 (let out1 = out0 @ [FoundEntries (length subtitles)]
                  in if subtitles = [] then (False, out1 @ [NoValidSubtitles], fs)
                     else (case write_text fs jsx_path
                                  (generate_jsx rt subtitles ''Captions'' 1920 1080 30) of
                             Inl e \<Rightarrow> (False, out1 @ [ErrorDuring e], fs)
                           | Inr fs' \<Rightarrow>
                               (True, out1 @ [ConversionComplete jsx_path], fs'))))))"

text \<open>
  \<^verbatim>\<open>convert_srt_to_jsx\<close> of \<^verbatim>\<open>srt_to_jsx_converter.py\<close> raises
  \<^verbatim>\<open>FileNotFoundError\<close> for a missing input and \<^verbatim>\<open>ValueError("No captions found in SRT
  file")\<close> (\<open>NoCaptions\<close>) for an empty list, lets every other exception through, and returns
  the output path with the number of captions. An error leaves the file system as it was.
\<close>

definition convert_srt_to_jsx_conv ::
  "runtime \<Rightarrow> filesystem \<Rightarrow> string \<Rightarrow> string option
     \<Rightarrow> py_error + ((string \<times> nat) \<times> filesystem)" where
  "convert_srt_to_jsx_conv rt fs srt_path output_path_arg =
     (if \<not> path_exists fs srt_path then Inl (FileNotFound srt_path)
      else
        (case parse_srt_file_conv fs srt_path of
           Inl e \<Rightarrow> Inl e
         | Inr captions \<Rightarrow>
             (if captions = [] then Inl NoCaptions
              else (case generate_jsx_script rt captions ''Captions'' 1920 1080 30 of
                      Inl e \<Rightarrow> Inl e
                    | Inr jsx_content \<Rightarrow>
                        (let output_path =
                               (case output_path_arg of
                                  None \<Rightarrow>
                                    path_join rt (path_dirname rt srt_path)
                                      (fst (path_splitext rt (path_basename rt srt_path))
                                         @ ''_ae_import.jsx'')
                                | Some p \<Rightarrow> p)
                         in (case write_text fs output_path jsx_content of
                               Inl e \<Rightarrow> Inl e
                             | Inr fs' \<Rightarrow> Inr ((output_path, length captions), fs')))))))"

section \<open>Notions used in the statements\<close>

text \<open>
  The value of two and of three decimal digits, and the floats that are finite and not
  negative.
\<close>

definition two_digits :: "char \<Rightarrow> char \<Rightarrow> nat" where
  "two_digits a b = 10 * digit_val a + digit_val b"

definition three_digits :: "char \<Rightarrow> char \<Rightarrow> char \<Rightarrow> nat" where
  "three_digits a b c = 100 * digit_val a + 10 * digit_val b + digit_val c"

fun finite_nonneg :: "pyfloat \<Rightarrow> bool" where
  "finite_nonneg (Finite r) = (0 \<le> r)"
| "finite_nonneg x = False"

definition accepted :: "string \<Rightarrow> subtitle option" where
  "accepted block = (case parse_block block of Inr (Some d) \<Rightarrow> Some d | _ \<Rightarrow> None)"

definition accepted_conv :: "string \<Rightarrow> caption option" where
  "accepted_conv block = (case parse_block_conv block of Inr (Some d) \<Rightarrow> Some d | _ \<Rightarrow> None)"

definition garbled_doc :: string where
  "garbled_doc = ''1\<newline>00:00:01,000 --> 00:00:03,000\<newline>Hello world\<newline>\<newline>2\<newline>00:00:04,500 -> 00:00:06,000\<newline>Second line''"

definition backwards_doc :: string where
  "backwards_doc = ''1\<newline>00:00:05,000 --> 00:00:01,000\<newline>Hi''"

definition rt0 :: runtime where
  "rt0 = \<lparr>repr_float = (\<lambda>x. ''?''), format_3f = (\<lambda>x. ''?''), now_str = ''2025-01-01 00:00:00'',
           path_basename = (\<lambda>p. p), path_dirname = (\<lambda>p. []), path_splitext = (\<lambda>p. (p, [])),
           path_join = (\<lambda>d f. f)\<rparr>"

definition fs0 :: filesystem where
  "fs0 = \<lparr>files = (\<lambda>p. if p = ''a.srt'' then Some '' \<newline> '' else None), denied = (\<lambda>p. False)\<rparr>"

definition padded_doc :: string where
  "padded_doc = ''1 \<newline>00:00:01,000 --> 00:00:02,000\<newline>Hi''"

definition first_doc :: string where
  "first_doc = ''1\<newline>00:00:01,000 --> 00:00:02,000\<newline>Hi''"

definition second_doc :: string where
  "second_doc = ''2\<newline>00:00:01,000 --> 00:00:02,000\<newline>Hi''"

definition quoted_doc :: string where
  "quoted_doc = ''1\<newline>00:00:01,000 --> 00:00:02,000\<newline>He said '' @ [DQ] @ ''hi'' @ [DQ]"

definition add_text_line :: "string \<Rightarrow> string \<Rightarrow> string" where
  "add_text_line k t =
     ''var textLayer'' @ k @ '' = comp.layers.addText('' @ [DQ] @ t @ [DQ] @ '');''"

definition escape_quotes :: "string \<Rightarrow> string" where
  "escape_quotes t = concat (map (\<lambda>c. if c = DQ then [BS, DQ] else [c]) t)"

text \<open>
  A document whose one cue ends after one minute, with the dictionary that each parser makes
  of it, and a block whose timing line holds a signed hour and \<^verbatim>\<open>inf\<close>.
\<close>

definition late_subtitle :: subtitle where
  "late_subtitle = \<lparr>sub_start = Finite 61, sub_end = Finite 65, sub_text = ''late''\<rparr>"

definition late_doc :: string where
  "late_doc = ''1\<newline>00:01:01,000 --> 00:01:05,000\<newline>late''"

definition late_caption :: caption where
  "late_caption = \<lparr>cap_sequence = ''1'', cap_start = Finite 61, cap_end = Finite 65,
                    cap_text = ''late''\<rparr>"

definition signed_doc :: string where
  "signed_doc = ''1\<newline>-1:00:00 --> 00:00:inf\<newline>x''"

text \<open>
  Where the blocks lie in a document. \<open>interleave bs gs\<close> is the text that holds the
  blocks \<open>bs\<close> in their order, with the gap \<open>gs ! i\<close> between block \<open>i\<close> and the next.
  A gap is a match of \<^verbatim>\<open>\n\s*\n\<close>: white space of at least two characters that starts and
  ends with a line feed. \<open>has_gap s\<close> says that some contiguous part of \<open>s\<close> is a gap, and
  \<open>gap_free s\<close> that the pattern matches at no line feed of \<open>s\<close>.
\<close>

fun interleave :: "string list \<Rightarrow> string list \<Rightarrow> string" where
  "interleave [] gs = []"
| "interleave (b # bs) [] = b @ interleave bs []"
| "interleave (b # bs) (g # gs) = b @ g @ interleave bs gs"

definition is_gap :: "string \<Rightarrow> bool" where
  "is_gap g = (2 \<le> length g \<and> hd g = LF \<and> last g = LF \<and> list_all py_isspace g)"

definition has_gap :: "string \<Rightarrow> bool" where
  "has_gap s = list_ex is_gap (sublists s)"

fun gap_free :: "string \<Rightarrow> bool" where
  "gap_free [] = True"
| "gap_free (c # cs) = ((c \<noteq> LF \<or> blank_gap cs = None) \<and> gap_free cs)"

text \<open>
  A document of two cues, and the two dictionaries that the parser of
  \<^verbatim>\<open>srt_to_jsx_converter.py\<close> makes of them.
\<close>

definition two_cue_doc :: string where
  "two_cue_doc = ''1\<newline>00:00:01,000 --> 00:00:03,000\<newline>Hello world\<newline>\<newline>2\<newline>00:00:04,500 --> 00:00:06,000\<newline>Second line''"

definition cue1 :: caption where
  "cue1 = \<lparr>cap_sequence = ''1'', cap_start = Finite 1, cap_end = Finite 3,
            cap_text = ''Hello world''\<rparr>"

definition cue2 :: caption where
  "cue2 = \<lparr>cap_sequence = ''2'', cap_start = Finite (9 / 2), cap_end = Finite 6,
            cap_text = ''Second line''\<rparr>"

section \<open>Facts about the string functions\<close>

lemma py_split_nonempty: "py_split sep s \<noteq> []"
  by (induction s) (auto simp: neq_Nil_conv split: list.splits elim: cons_head.elims)

section \<open>Facts about rounding to binary64\<close>

lemma pow2_powi: "pow2 e = 2 powi e"
  unfolding pow2_def power_int_def by (simp add: field_simps)

lemma pow2_pos: "0 < pow2 e"
  by (simp add: pow2_powi)

lemma pow2_add: "pow2 (a + b) = pow2 a * pow2 b"
  by (simp add: pow2_powi power_int_add)

lemma pow2_mono: "a \<le> b \<Longrightarrow> pow2 a \<le> pow2 b"
  by (simp add: pow2_powi power_int_increasing)

lemma pow2_nat: "pow2 (int n) = 2 ^ n"
  by (simp add: pow2_def)

lemma bitlen_pow2_bounds:
  assumes "0 < p"
  shows "pow2 (bitlen p - 1) \<le> of_int p" and "of_int p < pow2 (bitlen p)"
proof -
  have b: "1 \<le> bitlen p"
    using assms bitlen_eq_zero_iff [of p] bitlen_nonneg [of p] by linarith
  have "(2::int) ^ nat (bitlen p - 1) \<le> p" and "p < 2 ^ nat (bitlen p)"
    using bitlen_bounds [OF assms] by auto
  then have "(of_int (2 ^ nat (bitlen p - 1)) :: rat) \<le> of_int p"
    and "(of_int p :: rat) < of_int (2 ^ nat (bitlen p))"
    by (simp_all only: of_int_le_iff of_int_less_iff)
  then show "pow2 (bitlen p - 1) \<le> of_int p" and "of_int p < pow2 (bitlen p)"
    using b by (simp_all add: pow2_def)
qed

lemma binade_bounds:
  assumes "0 < x"
  shows "pow2 (binade x) \<le> x" and "x < pow2 (binade x + 1)"
proof -
  obtain p q where pq: "quotient_of x = (p, q)" by (cases "quotient_of x")
  have q: "0 < q" using pq by (rule quotient_of_denom_pos)
  have x: "x = of_int p / of_int q" using pq by (rule quotient_of_div)
  have p: "0 < p" using assms q x by (simp add: zero_less_divide_iff)
  define e0 where "e0 = bitlen p - bitlen q"
  have bin: "binade x = (if pow2 e0 \<le> x then e0 else e0 - 1)"
    by (simp add: binade_def pq e0_def Let_def)
  note P = bitlen_pow2_bounds [OF p] and Q = bitlen_pow2_bounds [OF q]
  have qpos: "(0::rat) < of_int q" using q by simp
  have lo: "pow2 (e0 - 1) \<le> x"
  proof -
    have "pow2 (e0 - 1) * pow2 (bitlen q) = pow2 (bitlen p - 1)"
      by (simp add: pow2_add [symmetric] e0_def)
    then have "pow2 (e0 - 1) * of_int q \<le> of_int p"
      using P(1) Q(2) pow2_pos [of "e0 - 1"]
      by (smt (verit) mult_left_mono less_imp_le order_trans)
    then show ?thesis using qpos by (simp add: x pos_le_divide_eq)
  qed
  have hi: "x < pow2 (e0 + 1)"
  proof -
    have "pow2 (e0 + 1) * pow2 (bitlen q - 1) = pow2 (bitlen p)"
      by (simp add: pow2_add [symmetric] e0_def)
    then have "of_int p < pow2 (e0 + 1) * of_int q"
      using P(2) Q(1) pow2_pos [of "e0 + 1"]
      by (smt (verit) mult_left_mono less_imp_le less_le_trans)
    then show ?thesis using qpos by (simp add: x pos_divide_less_eq)
  qed
  show "pow2 (binade x) \<le> x" using lo by (simp add: bin)
  show "x < pow2 (binade x + 1)" using hi by (auto simp add: bin not_le)
qed


lemma pow2_less_cancel: "pow2 a < pow2 b \<Longrightarrow> a < b"
  using pow2_mono [of b a] by (cases "a < b") auto

lemma round_half_even_of_int: "round_half_even (of_int n) = n"
  by (simp add: round_half_even_def)

lemma round_half_even_bounds:
  "of_int (round_half_even q) \<le> q + 1 / 2" "q - 1 / 2 \<le> of_int (round_half_even q)"
proof -
  define f where "f = \<lfloor>q\<rfloor>"
  have a: "of_int f \<le> q" and b: "q < of_int f + 1"
    by (simp_all add: f_def) linarith
  have r: "round_half_even q =
      (if q - of_int f < 1 / 2 then f else if 1 / 2 < q - of_int f then f + 1
       else if even f then f else f + 1)"
    by (simp add: round_half_even_def f_def Let_def)
  show "of_int (round_half_even q) \<le> q + 1 / 2"
    unfolding r using a b by (simp split: if_splits)
  show "q - 1 / 2 \<le> of_int (round_half_even q)"
    unfolding r using a b by (simp split: if_splits)
qed

lemma round_half_even_nonneg: "0 \<le> q \<Longrightarrow> 0 \<le> round_half_even q"
  unfolding round_half_even_def Let_def by (auto simp: not_less)

lemma round_binary64_exact:
  assumes x: "x = of_int m * pow2 k" and m: "\<bar>m\<bar> < 2 ^ 53" and k: "- 1074 \<le> k"
    and big: "\<bar>x\<bar> < pow2 1024"
  shows "round_binary64 x = Finite x"
proof (cases "x = 0")
  case True
  then show ?thesis by (simp add: round_binary64_def)
next
  case False
  define a where "a = \<bar>x\<bar>"
  have apos: "0 < a" using False by (simp add: a_def)
  have a: "a = of_int \<bar>m\<bar> * pow2 k"
    using pow2_pos [of k] by (simp add: a_def x abs_mult)
  define e where "e = max (binade a) (- 1022)"
  have "pow2 (binade a) \<le> a" using binade_bounds(1) [OF apos] .
  also have "a < 2 ^ 53 * pow2 k"
  proof -
    have "(of_int \<bar>m\<bar> :: rat) < of_int (2 ^ 53)" using m by (simp only: of_int_less_iff)
    then show ?thesis using pow2_pos [of k] by (simp add: a)
  qed
  also have "2 ^ 53 * pow2 k = pow2 (53 + k)"
  proof -
    have "pow2 53 = 2 ^ 53" by (simp add: pow2_def)
    then show ?thesis by (simp only: pow2_add)
  qed
  finally have "binade a < 53 + k" by (rule pow2_less_cancel)
  then have ek: "e - 52 \<le> k" using k by (simp add: e_def)
  define j where "j = nat (k - (e - 52))"
  have "pow2 k = pow2 (int j) * pow2 (e - 52)"
    using ek by (simp add: pow2_add [symmetric] j_def)
  then have "a / pow2 (e - 52) = of_int (\<bar>m\<bar> * 2 ^ j)"
    using pow2_pos [of "e - 52"] by (simp add: a pow2_nat)
  then have r: "of_int (round_half_even (a / pow2 (e - 52))) * pow2 (e - 52) = a"
    using pow2_pos [of "e - 52"] \<open>a / pow2 (e - 52) = of_int (\<bar>m\<bar> * 2 ^ j)\<close>
    by (simp only: round_half_even_of_int) (simp add: field_simps)
  show ?thesis
    using False big r unfolding round_binary64_def Let_def a_def [symmetric] e_def [symmetric]
    by (auto simp: a_def not_le)
qed

lemma pow2_1024_gt: "2 ^ 53 < pow2 1024"
proof -
  have "pow2 53 < pow2 1024"
    unfolding pow2_powi by (rule power_int_strict_increasing) simp_all
  moreover have "pow2 53 = 2 ^ 53" by (simp add: pow2_def)
  ultimately show ?thesis by simp
qed

lemma round_binary64_of_int:
  assumes "\<bar>n\<bar> < 2 ^ 53"
  shows "round_binary64 (of_int n) = Finite (of_int n)"
proof (rule round_binary64_exact [where m = n and k = 0])
  show "(of_int n :: rat) = of_int n * pow2 0" by (simp add: pow2_def)
  show "\<bar>n\<bar> < 2 ^ 53" by fact
  show "- 1074 \<le> (0::int)" by simp
  have "(of_int \<bar>n\<bar> :: rat) < of_int (2 ^ 53)" using assms by (simp only: of_int_less_iff)
  then show "\<bar>of_int n :: rat\<bar> < pow2 1024" using pow2_1024_gt by simp
qed

lemma round_binary64_bounded:
  assumes "0 \<le> x" and "x \<le> 2 ^ 1000"
  shows "\<exists>r. round_binary64 x = Finite r \<and> 0 \<le> r \<and> r \<le> 2 * x + 1"
proof (cases "x = 0")
  case True
  then show ?thesis by (simp add: round_binary64_def)
next
  case False
  then have xpos: "0 < x" using assms by simp
  define e where "e = max (binade x) (- 1022)"
  define u where "u = pow2 (e - 52)"
  define r where "r = of_int (round_half_even (x / u)) * u"
  have upos: "0 < u" by (simp add: u_def pow2_pos)
  have ule: "u \<le> x + 1"
  proof (cases "- 1022 \<le> binade x")
    case True
    then have "u = pow2 (binade x - 52)" by (simp add: u_def e_def)
    also have "\<dots> \<le> pow2 (binade x)" by (rule pow2_mono) simp
    also have "\<dots> \<le> x" by (rule binade_bounds(1) [OF xpos])
    finally show ?thesis by simp
  next
    case False
    then have "u = pow2 (- 1074)" by (simp add: u_def e_def)
    also have "\<dots> \<le> pow2 0" by (rule pow2_mono) simp
    also have "\<dots> = 1" by (simp add: pow2_def)
    finally show ?thesis using xpos by simp
  qed
  have "r \<le> (x / u + 1 / 2) * u"
    unfolding r_def using round_half_even_bounds(1) [of "x / u"] upos
    by (simp only: mult_le_cancel_right_pos)
  also have "\<dots> = x + u / 2" using upos by (simp add: field_simps)
  finally have rle: "r \<le> 2 * x + 1" using ule xpos by linarith
  have rge: "0 \<le> r"
    unfolding r_def using round_half_even_nonneg [of "x / u"] xpos upos by simp
  have "2 * x + 1 \<le> 2 * 2 ^ 1000 + (1::rat)" using assms by simp
  also have "\<dots> < 2 ^ 1024" by simp
  also have "\<dots> = pow2 1024" by (simp add: pow2_def)
  finally have "r < pow2 1024" using rle by simp
  then have "round_binary64 x = Finite r"
    using xpos by (simp add: round_binary64_def Let_def e_def u_def r_def not_le [symmetric])
  then show ?thesis using rge rle by simp
qed

lemma round_half_even_ge: "of_int n \<le> q \<Longrightarrow> n \<le> round_half_even q"
proof -
  assume "of_int n \<le> q"
  then have "n \<le> \<lfloor>q\<rfloor>" by (simp add: le_floor_iff)
  then show ?thesis by (simp add: round_half_even_def Let_def)
qed

lemma round_binary64_overflow:
  assumes "pow2 1024 \<le> x"
  shows "round_binary64 x = PosInf"
proof -
  have xpos: "0 < x" using assms pow2_pos [of 1024] by simp
  have "pow2 1024 \<le> x" by fact
  also have "x < pow2 (binade x + 1)" by (rule binade_bounds(2) [OF xpos])
  finally have b: "1024 \<le> binade x" using pow2_less_cancel by fastforce
  define u where "u = pow2 (binade x - 52)"
  have upos: "0 < u" by (simp add: u_def pow2_pos)
  have p52: "pow2 52 = of_int (2 ^ 52)" by (simp add: pow2_def)
  have pu: "pow2 52 * u = pow2 (binade x)" by (simp add: u_def pow2_add [symmetric])
  then have "of_int (2 ^ 52) * u \<le> x"
    using binade_bounds(1) [OF xpos] by (simp only: p52)
  then have "of_int (2 ^ 52) \<le> x / u" using upos by (simp add: pos_le_divide_eq)
  then have "2 ^ 52 \<le> round_half_even (x / u)" by (rule round_half_even_ge)
  then have "(of_int (2 ^ 52) :: rat) \<le> of_int (round_half_even (x / u))"
    by (simp only: of_int_le_iff)
  then have "of_int (2 ^ 52) * u \<le> of_int (round_half_even (x / u)) * u"
    using upos by (simp only: mult_le_cancel_right_pos)
  moreover have "pow2 1024 \<le> pow2 (binade x)" using b by (rule pow2_mono)
  ultimately have "pow2 1024 \<le> of_int (round_half_even (x / u)) * u"
    using pu unfolding p52 by linarith
  then show ?thesis
    using xpos b by (simp add: round_binary64_def Let_def u_def max_def)
qed

section \<open>Timestamps that match the pattern\<close>

lemma digit_facts:
  assumes "py_isdigit c"
  shows "c \<noteq> CHR '',''" "c \<noteq> CHR '':''" "c \<noteq> CHR ''.''" "c \<noteq> CHR ''-''" "c \<noteq> CHR ''+''"
    "c \<noteq> CHR ''_''" "\<not> py_isspace c" "\<not> num_isspace c" "\<not> is_e c" "digit_val c \<le> 9"
  using assms by (auto simp: py_isdigit_def py_isspace_def num_isspace_def is_e_def digit_val_def)

lemma num_strip_digits2:
  "py_isdigit a \<Longrightarrow> py_isdigit b \<Longrightarrow> num_strip (a # xs @ [b]) = a # xs @ [b]"
  by (simp add: num_strip_def digit_facts)

lemma py_int_two_digits:
  assumes "py_isdigit a" "py_isdigit b"
  shows "py_int [a, b] = Some (int (10 * digit_val a + digit_val b))"
  using assms num_strip_digits2 [of a b "[]"]
  by (simp add: py_int_def split_sign_def digit_facts digits_val_def int_max_str_digits_def)

lemma dot_facts: "\<not> is_e (CHR ''.'')" "\<not> py_isdigit (CHR ''.'')"
  by (simp_all add: is_e_def py_isdigit_def)

lemma py_float_seconds:
  assumes "py_isdigit a" "py_isdigit b" "py_isdigit c" "py_isdigit d" "py_isdigit e"
  shows "py_float [a, b, CHR ''.'', c, d, e] =
    Some (round_binary64 (of_nat (10 * digit_val a + digit_val b)
        + of_nat (100 * digit_val c + 10 * digit_val d + digit_val e) / 1000))"
proof -
  let ?s = "[a, b, CHR ''.'', c, d, e]"
  have st: "num_strip ?s = ?s"
    using assms num_strip_digits2 [of a e "[b, CHR ''.'', c, d]"] by simp
  have sg: "split_sign ?s = (False, ?s)"
    using assms by (simp add: split_sign_def digit_facts)
  have fn: "float_number ?s = Some (of_nat (10 * digit_val a + digit_val b)
        + of_nat (100 * digit_val c + 10 * digit_val d + digit_val e) / 1000)"
    using assms
    by (simp add: float_number_def digit_facts dot_facts split_sign_def digits_val_def pow10_def
        field_simps)
  show ?thesis
    by (simp add: py_float_def st sg fn)
qed

lemma int_to_float_small: "\<bar>n\<bar> < 2 ^ 53 \<Longrightarrow> int_to_float n = Inr (Finite (of_int n))"
  by (simp add: int_to_float_def round_binary64_of_int)

lemma parse_srt_time_three:
  assumes "py_split (CHR '':'') (py_replace_chr (CHR '','') ''.'' s) = [a, b, c]"
    and "py_int a = Some h" and "py_int b = Some m" and "py_float c = Some sec"
    and "int_to_float (h * 3600 + m * 60) = Inr n"
  shows "parse_srt_time s = Inr (float_add n sec)"
  using assms by (simp add: parse_srt_time_def)

lemma parse_srt_time_digits:
  assumes "py_isdigit h1" "py_isdigit h2" "py_isdigit m1" "py_isdigit m2"
    "py_isdigit s1" "py_isdigit s2" "py_isdigit k1" "py_isdigit k2" "py_isdigit k3"
  shows "parse_srt_time [h1, h2, CHR '':'', m1, m2, CHR '':'', s1, s2, CHR '','', k1, k2, k3] =
    Inr (float_add (Finite (of_nat (two_digits h1 h2 * 3600 + two_digits m1 m2 * 60)))
          (round_binary64 (of_nat (two_digits s1 s2) + of_nat (three_digits k1 k2 k3) / 1000)))"
proof -
  let ?t = "[h1, h2, CHR '':'', m1, m2, CHR '':'', s1, s2, CHR '','', k1, k2, k3]"
  let ?n = "two_digits h1 h2 * 3600 + two_digits m1 m2 * 60"
  have rp: "py_replace_chr (CHR '','') ''.'' ?t =
      [h1, h2, CHR '':'', m1, m2, CHR '':'', s1, s2, CHR ''.'', k1, k2, k3]"
    using assms by (simp add: py_replace_chr_def digit_facts)
  have sp: "py_split (CHR '':'') [h1, h2, CHR '':'', m1, m2, CHR '':'', s1, s2, CHR ''.'', k1, k2, k3]
      = [[h1, h2], [m1, m2], [s1, s2, CHR ''.'', k1, k2, k3]]"
    using assms by (simp add: digit_facts)
  have "digit_val h1 \<le> 9" "digit_val h2 \<le> 9" "digit_val m1 \<le> 9" "digit_val m2 \<le> 9"
    using assms by (simp_all add: digit_facts)
  then have "?n \<le> 362340"
    by (simp add: two_digits_def)
  then have small: "\<bar>int ?n\<bar> < 2 ^ 53" by simp
  have n: "int (10 * digit_val h1 + digit_val h2) * 3600 + int (10 * digit_val m1 + digit_val m2) * 60
      = int ?n"
    by (simp add: two_digits_def)
  have i2f: "int_to_float (int ?n) = Inr (Finite (of_nat ?n))"
    using int_to_float_small [OF small] by simp
  have pi: "py_int [h1, h2] = Some (int (10 * digit_val h1 + digit_val h2))"
    "py_int [m1, m2] = Some (int (10 * digit_val m1 + digit_val m2))"
    using assms by (simp_all add: py_int_two_digits)
  have pf: "py_float [s1, s2, CHR ''.'', k1, k2, k3] =
      Some (round_binary64 (of_nat (two_digits s1 s2) + of_nat (three_digits k1 k2 k3) / 1000))"
    using assms by (simp add: py_float_seconds two_digits_def three_digits_def)
  show ?thesis
    by (rule parse_srt_time_three [where a = "[h1, h2]" and b = "[m1, m2]", OF _ pi pf])
      (simp_all only: rp sp n i2f)
qed

lemma seconds_sum_bound:
  fixes n s q :: rat
  assumes "n \<le> 362340" "s \<le> 2 * q + 1" "q \<le> 100"
  shows "n + s \<le> 363000"
  using assms by linarith

lemma below_2_1000: "(x::rat) \<le> 363000 \<Longrightarrow> x \<le> 2 ^ 1000"
proof -
  assume "x \<le> 363000"
  moreover have "(363000::rat) \<le> 2 ^ 1000" by simp
  ultimately show ?thesis by (rule order_trans)
qed

lemma parse_srt_time_digits_value:
  assumes "py_isdigit h1" "py_isdigit h2" "py_isdigit m1" "py_isdigit m2"
    "py_isdigit s1" "py_isdigit s2" "py_isdigit k1" "py_isdigit k2" "py_isdigit k3"
  shows "\<exists>v. parse_srt_time [h1, h2, CHR '':'', m1, m2, CHR '':'', s1, s2, CHR '','', k1, k2, k3]
           = Inr v \<and> finite_nonneg v"
proof -
  define n :: rat where "n = of_nat (two_digits h1 h2 * 3600 + two_digits m1 m2 * 60)"
  define q :: rat where "q = of_nat (two_digits s1 s2) + of_nat (three_digits k1 k2 k3) / 1000"
  have d: "digit_val h1 \<le> 9" "digit_val h2 \<le> 9" "digit_val m1 \<le> 9" "digit_val m2 \<le> 9"
    "digit_val s1 \<le> 9" "digit_val s2 \<le> 9" "digit_val k1 \<le> 9" "digit_val k2 \<le> 9" "digit_val k3 \<le> 9"
    using assms by (simp_all add: digit_facts)
  have "two_digits h1 h2 * 3600 + two_digits m1 m2 * 60 \<le> 362340"
    using d by (simp add: two_digits_def)
  then have "n \<le> of_nat 362340" unfolding n_def by (simp only: of_nat_le_iff)
  then have nle: "n \<le> 362340" by simp
  have n0: "0 \<le> n" by (simp add: n_def)
  have "two_digits s1 s2 \<le> 99" "three_digits k1 k2 k3 \<le> 999"
    using d by (simp_all add: two_digits_def three_digits_def)
  then have "(of_nat (two_digits s1 s2) :: rat) \<le> of_nat 99"
    "(of_nat (three_digits k1 k2 k3) :: rat) \<le> of_nat 999"
    by (simp_all only: of_nat_le_iff)
  then have q: "0 \<le> q" "q \<le> 100" by (simp_all add: q_def)
  have "q \<le> 2 ^ 1000" using q(2) by (intro below_2_1000) simp
  with q(1) obtain s where s: "round_binary64 q = Finite s" "0 \<le> s" "s \<le> 2 * q + 1"
    using round_binary64_bounded [of q] by blast
  have "n + s \<le> 363000" using nle s(3) q(2) by (rule seconds_sum_bound)
  then have "n + s \<le> 2 ^ 1000" by (rule below_2_1000)
  moreover have "0 \<le> n + s" using n0 s(2) by simp
  ultimately obtain r where r: "round_binary64 (n + s) = Finite r" "0 \<le> r"
    using round_binary64_bounded [of "n + s"] by blast
  have "parse_srt_time [h1, h2, CHR '':'', m1, m2, CHR '':'', s1, s2, CHR '','', k1, k2, k3]
      = Inr (float_add (Finite n) (round_binary64 q))"
    unfolding n_def q_def by (rule parse_srt_time_digits [OF assms])
  also have "float_add (Finite n) (round_binary64 q) = Finite r"
    by (simp only: s(1) float_add.simps r(1))
  finally show ?thesis using r(2) by simp
qed

lemma match_seq_Cons:
  "match_seq (a # as) s = Some r \<longleftrightarrow> (\<exists>c cs. s = c # cs \<and> atom_ok a c \<and> match_seq as cs = Some r)"
  by (cases s) auto

lemma match_timestamp:
  assumes "match_seq timestamp_pat s = Some r"
  obtains h1 h2 m1 m2 s1 s2 k1 k2 k3 where
    "py_isdigit h1" "py_isdigit h2" "py_isdigit m1" "py_isdigit m2" "py_isdigit s1"
    "py_isdigit s2" "py_isdigit k1" "py_isdigit k2" "py_isdigit k3"
    "s = [h1, h2, CHR '':'', m1, m2, CHR '':'', s1, s2, CHR '','', k1, k2, k3] @ r"
  using assms unfolding timestamp_pat_def match_seq_Cons by auto

lemma match_timestamp_value:
  assumes "match_seq timestamp_pat s = Some r"
  shows "\<exists>v. parse_srt_time (take 12 s) = Inr v \<and> finite_nonneg v"
proof -
  from assms obtain h1 h2 m1 m2 s1 s2 k1 k2 k3 where
    d: "py_isdigit h1" "py_isdigit h2" "py_isdigit m1" "py_isdigit m2" "py_isdigit s1"
      "py_isdigit s2" "py_isdigit k1" "py_isdigit k2" "py_isdigit k3"
    and s: "s = [h1, h2, CHR '':'', m1, m2, CHR '':'', s1, s2, CHR '','', k1, k2, k3] @ r"
    by (rule match_timestamp)
  have "take 12 s = [h1, h2, CHR '':'', m1, m2, CHR '':'', s1, s2, CHR '','', k1, k2, k3]"
    unfolding s by simp
  then show ?thesis using parse_srt_time_digits_value [OF d] by (simp only:)
qed

lemma re_match_time_line_value:
  assumes "re_match_time_line time_line = Some (g1, g2)"
  shows "\<exists>v1 v2. parse_srt_time g1 = Inr v1 \<and> finite_nonneg v1
     \<and> parse_srt_time g2 = Inr v2 \<and> finite_nonneg v2"
proof -
  from assms obtain r1 r2 r3 where
    m1: "match_seq timestamp_pat time_line = Some r1"
    and m3: "match_seq timestamp_pat (dropWhile py_isspace r2) = Some r3"
    and g: "g1 = take 12 time_line" "g2 = take 12 (dropWhile py_isspace r2)"
    by (auto simp: re_match_time_line_def split: option.splits)
  from match_timestamp_value [OF m1] obtain v1 where
    "parse_srt_time g1 = Inr v1" "finite_nonneg v1" unfolding g by auto
  moreover from match_timestamp_value [OF m3] obtain v2 where
    "parse_srt_time g2 = Inr v2" "finite_nonneg v2" unfolding g by auto
  ultimately show ?thesis by simp
qed

section \<open>The claims about the timestamp converter\<close>

lemma round_binary64_dyadic:
  assumes "\<bar>m\<bar> < 2 ^ 53" and "j \<le> 1074"
  shows "round_binary64 (of_int m / 2 ^ j) = Finite (of_int m / 2 ^ j)"
proof (rule round_binary64_exact [where m = m and k = "- int j"])
  show "(of_int m / 2 ^ j :: rat) = of_int m * pow2 (- int j)"
    by (simp add: pow2_def)
  show "\<bar>m\<bar> < 2 ^ 53" by fact
  show "- 1074 \<le> - int j" using assms(2) by simp
  have "(of_int \<bar>m\<bar> :: rat) < of_int (2 ^ 53)" using assms(1) by (simp only: of_int_less_iff)
  then have "\<bar>of_int m :: rat\<bar> < pow2 1024" using pow2_1024_gt by simp
  moreover have "\<bar>of_int m / 2 ^ j :: rat\<bar> \<le> \<bar>of_int m\<bar>"
  proof -
    have "(1::rat) \<le> 2 ^ j" by simp
    then have "\<bar>of_int m :: rat\<bar> * 1 \<le> \<bar>of_int m\<bar> * 2 ^ j"
      by (intro mult_left_mono) simp_all
    then show ?thesis by (simp add: pos_divide_le_eq)
  qed
  ultimately show "\<bar>of_int m / 2 ^ j :: rat\<bar> < pow2 1024" by simp
qed

lemma digit_vals:
  "digit_val (CHR ''0'') = 0" "digit_val (CHR ''1'') = 1" "digit_val (CHR ''2'') = 2"
  "digit_val (CHR ''3'') = 3" "digit_val (CHR ''4'') = 4" "digit_val (CHR ''5'') = 5"
  "digit_val (CHR ''6'') = 6" "digit_val (CHR ''7'') = 7" "digit_val (CHR ''8'') = 8"
  "digit_val (CHR ''9'') = 9"
  by (simp_all add: digit_val_def)

lemma digit_chars:
  "py_isdigit (CHR ''0'')" "py_isdigit (CHR ''1'')" "py_isdigit (CHR ''2'')"
  "py_isdigit (CHR ''3'')" "py_isdigit (CHR ''4'')" "py_isdigit (CHR ''5'')"
  "py_isdigit (CHR ''6'')" "py_isdigit (CHR ''7'')" "py_isdigit (CHR ''8'')"
  "py_isdigit (CHR ''9'')"
  by (simp_all add: py_isdigit_def)

text \<open>
  C10: a string that matches \<^verbatim>\<open>\d{2}:\d{2}:\d{2},\d{3}\<close> is converted without an error,
  and so are the two groups of a timing line that the pattern of \<^verbatim>\<open>srt_to_jsx.py\<close>
  matches.
\<close>

theorem matched_timestamp_converts:
  "(match_seq timestamp_pat g = Some [] \<longrightarrow> (\<exists>v. parse_srt_time g = Inr v))
   \<and> (re_match_time_line time_line = Some (g1, g2) \<longrightarrow>
        (\<exists>v1 v2. parse_srt_time g1 = Inr v1 \<and> parse_srt_time g2 = Inr v2))"
proof (intro conjI impI)
  assume m: "match_seq timestamp_pat g = Some []"
  then obtain h1 h2 m1 m2 s1 s2 k1 k2 k3 where
    "g = [h1, h2, CHR '':'', m1, m2, CHR '':'', s1, s2, CHR '','', k1, k2, k3] @ []"
    by (rule match_timestamp)
  then have "take 12 g = g" by simp
  then show "\<exists>v. parse_srt_time g = Inr v"
    using match_timestamp_value [OF m] by auto
next
  assume "re_match_time_line time_line = Some (g1, g2)"
  then show "\<exists>v1 v2. parse_srt_time g1 = Inr v1 \<and> parse_srt_time g2 = Inr v2"
    using re_match_time_line_value by blast
qed

theorem matched_timestamp_converts_witness:
  "match_seq timestamp_pat ''00:00:01,000'' = Some []
   \<and> (\<exists>v. parse_srt_time ''00:00:01,000'' = Inr v)
   \<and> re_match_time_line ''00:00:01,000 --> 00:00:03,000'' = Some (''00:00:01,000'', ''00:00:03,000'')
   \<and> (\<exists>v1 v2. parse_srt_time ''00:00:01,000'' = Inr v1 \<and> parse_srt_time ''00:00:03,000'' = Inr v2)"
proof -
  have a: "match_seq timestamp_pat ''00:00:01,000'' = Some []"
    by (simp add: timestamp_pat_def py_isdigit_def)
  have b: "re_match_time_line ''00:00:01,000 --> 00:00:03,000'' = Some (''00:00:01,000'', ''00:00:03,000'')"
    by (simp add: re_match_time_line_def timestamp_pat_def arrow_pat_def py_isdigit_def py_isspace_def)
  show ?thesis
    using a b matched_timestamp_converts [of "''00:00:01,000''" "''00:00:01,000 --> 00:00:03,000''"
        "''00:00:01,000''" "''00:00:03,000''"]
    by simp
qed

lemma int_to_float_cases: "int_to_float n = Inl OverflowError \<or> (\<exists>r. int_to_float n = Inr (Finite r))"
  by (simp add: int_to_float_def split: pyfloat.splits)

lemma py_split_shape:
  "(\<exists>f1. py_split sep s = [f1]) \<or> (\<exists>f1 f2. py_split sep s = [f1, f2])
   \<or> (\<exists>f1 f2 f3 rest. py_split sep s = f1 # f2 # f3 # rest)"
  using py_split_nonempty [of sep s]
  by (cases "py_split sep s" rule: list.exhaust; simp;
      rename_tac a as; case_tac as; simp; rename_tac b bs; case_tac bs; simp)

section \<open>The claims about the block parsers\<close>

lemma parse_block_cases:
  "parse_block block = Inr None
   \<or> (\<exists>d. parse_block block = Inr (Some d) \<and> finite_nonneg (sub_start d) \<and> finite_nonneg (sub_end d))"
proof (cases "3 \<le> length (block_lines block)")
  case False
  then show ?thesis by (simp add: parse_block_def)
next
  case True
  show ?thesis
  proof (cases "re_match_time_line (block_lines block ! 1)")
    case None
    then show ?thesis using True by (simp add: parse_block_def)
  next
    case (Some g)
    obtain g1 g2 where g: "g = (g1, g2)" by (cases g)
    from re_match_time_line_value [OF Some [unfolded g]] obtain v1 v2 where
      "parse_srt_time g1 = Inr v1" "finite_nonneg v1" "parse_srt_time g2 = Inr v2" "finite_nonneg v2"
      by blast
    then show ?thesis using True Some g by (simp add: parse_block_def Let_def)
  qed
qed

lemma parse_block_accepted:
  "parse_block block = Inr (accepted block)"
  using parse_block_cases [of block] by (auto simp: accepted_def)

lemma parse_blocks_eq:
  "parse_blocks subtitles blocks = Inr (subtitles @ List.map_filter accepted blocks)"
proof (induction blocks arbitrary: subtitles)
  case Nil
  show ?case by (simp add: List.map_filter_simps)
next
  case (Cons b bs)
  show ?case
    by (cases "accepted b") (simp_all add: parse_block_accepted Cons.IH List.map_filter_simps)
qed

lemma parse_blocks_conv_eq:
  "parse_blocks_conv captions blocks =
     (case find (\<lambda>b. isl (parse_block_conv b)) blocks of
        Some b \<Rightarrow> Inl (projl (parse_block_conv b))
      | None \<Rightarrow> Inr (captions @ List.map_filter accepted_conv blocks))"
proof (induction blocks arbitrary: captions)
  case Nil
  show ?case by (simp add: List.map_filter_simps)
next
  case (Cons b bs)
  show ?case
  proof (cases "parse_block_conv b")
    case (Inl e)
    then show ?thesis by simp
  next
    case (Inr r)
    then have "accepted_conv b = r"
      by (cases r) (simp_all add: accepted_conv_def)
    then show ?thesis
      using Inr by (cases r) (simp_all add: Cons.IH List.map_filter_simps split: option.splits)
  qed
qed

lemma garbled_strip: "py_strip garbled_doc = garbled_doc"
  by (simp add: py_strip_def garbled_doc_def py_isspace_def)

lemma garbled_blocks:
  "re_split_blocks garbled_doc =
     [''1\<newline>00:00:01,000 --> 00:00:03,000\<newline>Hello world'',
      ''2\<newline>00:00:04,500 -> 00:00:06,000\<newline>Second line'']"
  by (simp add: garbled_doc_def blank_gap_def LF_def py_isspace_def)

lemma parse_srt_time_seconds:
  assumes "py_isdigit s"
  shows "parse_srt_time [CHR ''0'', CHR ''0'', CHR '':'', CHR ''0'', CHR ''0'', CHR '':'', CHR ''0'', s,
      CHR '','', CHR ''0'', CHR ''0'', CHR ''0''] = Inr (Finite (of_nat (digit_val s)))"
proof -
  have "digit_val s \<le> 9" using assms by (simp add: digit_facts)
  then have "\<bar>int (digit_val s)\<bar> < 2 ^ 53" by simp
  then have r: "round_binary64 (of_nat (digit_val s)) = Finite (of_nat (digit_val s))"
    using round_binary64_of_int [of "int (digit_val s)"] by simp
  show ?thesis
    using parse_srt_time_digits [of "CHR ''0''" "CHR ''0''" "CHR ''0''" "CHR ''0''" "CHR ''0''" s
        "CHR ''0''" "CHR ''0''" "CHR ''0''"] assms
    by (simp add: digit_chars two_digits_def three_digits_def digit_vals r)
qed

lemma parse_srt_time_examples:
  "parse_srt_time ''00:00:01,000'' = Inr (Finite 1)"
  "parse_srt_time ''00:00:02,000'' = Inr (Finite 2)"
  "parse_srt_time ''00:00:03,000'' = Inr (Finite 3)"
  "parse_srt_time ''00:00:05,000'' = Inr (Finite 5)"
  "parse_srt_time ''00:00:06,000'' = Inr (Finite 6)"
  using parse_srt_time_seconds [of "CHR ''1''"] parse_srt_time_seconds [of "CHR ''2''"]
    parse_srt_time_seconds [of "CHR ''3''"] parse_srt_time_seconds [of "CHR ''5''"]
    parse_srt_time_seconds [of "CHR ''6''"]
  by (simp_all add: digit_chars digit_vals)

lemma parse_srt_time_four_and_a_half:
  "parse_srt_time ''00:00:04,500'' = Inr (Finite (9 / 2))"
proof -
  have r: "round_binary64 (9 / 2) = Finite (9 / 2)"
    using round_binary64_dyadic [of 9 1] by simp
  show ?thesis
    using parse_srt_time_digits [of "CHR ''0''" "CHR ''0''" "CHR ''0''" "CHR ''0''" "CHR ''0''"
        "CHR ''4''" "CHR ''5''" "CHR ''0''" "CHR ''0''"]
    by (simp add: digit_chars two_digits_def three_digits_def digit_vals r)
qed

lemma match_examples:
  "re_match_time_line ''00:00:01,000 --> 00:00:03,000'' = Some (''00:00:01,000'', ''00:00:03,000'')"
  "re_match_time_line ''00:00:04,500 -> 00:00:06,000'' = None"
  by (simp_all add: re_match_time_line_def timestamp_pat_def arrow_pat_def py_isdigit_def
      py_isspace_def)

lemma garbled_block1:
  "parse_block ''1\<newline>00:00:01,000 --> 00:00:03,000\<newline>Hello world'' =
     Inr (Some \<lparr>sub_start = Finite 1, sub_end = Finite 3, sub_text = ''Hello world''\<rparr>)"
  by (simp add: parse_block_def block_lines_def py_strip_def py_isspace_def LF_def
      match_examples parse_srt_time_examples clean_text_def py_replace_chr_def DQ_def BS_def)

lemma garbled_block2:
  "parse_block ''2\<newline>00:00:04,500 -> 00:00:06,000\<newline>Second line'' = Inr None"
  by (simp add: parse_block_def block_lines_def py_strip_def py_isspace_def LF_def
      match_examples)

lemma garbled_block1_conv:
  "parse_block_conv ''1\<newline>00:00:01,000 --> 00:00:03,000\<newline>Hello world'' =
     Inr (Some \<lparr>cap_sequence = ''1'', cap_start = Finite 1, cap_end = Finite 3,
                cap_text = ''Hello world''\<rparr>)"
  by (simp add: parse_block_conv_def block_lines_def py_strip_def py_isspace_def LF_def
      py_split_str_def parse_srt_time_examples)

lemma garbled_block2_conv:
  "parse_block_conv ''2\<newline>00:00:04,500 -> 00:00:06,000\<newline>Second line'' = Inl ValueError"
  by (simp add: parse_block_conv_def block_lines_def py_strip_def py_isspace_def LF_def
      py_split_str_def)

lemma garbled_parse:
  "parse_srt_text garbled_doc =
     Inr [\<lparr>sub_start = Finite 1, sub_end = Finite 3, sub_text = ''Hello world''\<rparr>]"
  by (simp add: parse_srt_text_def garbled_strip garbled_blocks garbled_block1 garbled_block2)

lemma garbled_parse_conv: "parse_srt_text_conv garbled_doc = Inl ValueError"
  by (simp add: parse_srt_text_conv_def garbled_strip garbled_blocks garbled_block1_conv
      garbled_block2_conv)

text \<open>
  C1: on a document with one well-formed block and one block whose timing line is garbled
  (\<^verbatim>\<open>->\<close> for \<^verbatim>\<open>-->\<close>), the parser of \<^verbatim>\<open>srt_to_jsx.py\<close> returns the one record, and
  the parser of \<^verbatim>\<open>srt_to_jsx_converter.py\<close> raises \<^verbatim>\<open>ValueError\<close> and returns nothing.
\<close>

theorem garbled_block_aborts_converter_parser:
  "parse_srt_text garbled_doc =
     Inr [\<lparr>sub_start = Finite 1, sub_end = Finite 3, sub_text = ''Hello world''\<rparr>]
   \<and> parse_srt_text_conv garbled_doc = Inl ValueError"
  by (simp add: garbled_parse garbled_parse_conv)

lemma backwards_parse:
  "parse_srt_text backwards_doc =
     Inr [\<lparr>sub_start = Finite 5, sub_end = Finite 1, sub_text = ''Hi''\<rparr>]"
proof -
  have m: "re_match_time_line ''00:00:05,000 --> 00:00:01,000'' = Some (''00:00:05,000'', ''00:00:01,000'')"
    by (simp add: re_match_time_line_def timestamp_pat_def arrow_pat_def py_isdigit_def
        py_isspace_def)
  have s: "py_strip backwards_doc = backwards_doc"
    by (simp add: py_strip_def backwards_doc_def py_isspace_def)
  have b: "re_split_blocks backwards_doc = [backwards_doc]"
    by (simp add: backwards_doc_def blank_gap_def LF_def py_isspace_def)
  have p: "parse_block backwards_doc =
      Inr (Some \<lparr>sub_start = Finite 5, sub_end = Finite 1, sub_text = ''Hi''\<rparr>)"
    by (simp add: backwards_doc_def parse_block_def block_lines_def py_strip_def py_isspace_def LF_def
        m parse_srt_time_examples clean_text_def py_replace_chr_def DQ_def BS_def)
  show ?thesis by (simp add: parse_srt_text_def s b p)
qed

lemma backwards_parse_conv:
  "parse_srt_text_conv backwards_doc =
     Inr [\<lparr>cap_sequence = ''1'', cap_start = Finite 5, cap_end = Finite 1, cap_text = ''Hi''\<rparr>]"
proof -
  have s: "py_strip backwards_doc = backwards_doc"
    by (simp add: py_strip_def backwards_doc_def py_isspace_def)
  have b: "re_split_blocks backwards_doc = [backwards_doc]"
    by (simp add: backwards_doc_def blank_gap_def LF_def py_isspace_def)
  have p: "parse_block_conv backwards_doc =
      Inr (Some \<lparr>cap_sequence = ''1'', cap_start = Finite 5, cap_end = Finite 1, cap_text = ''Hi''\<rparr>)"
    by (simp add: backwards_doc_def parse_block_conv_def block_lines_def py_strip_def py_isspace_def
        LF_def py_split_str_def parse_srt_time_examples)
  show ?thesis by (simp add: parse_srt_text_conv_def s b p)
qed

lemma parse_srt_text_eq:
  "parse_srt_text content = Inr (List.map_filter accepted (re_split_blocks (py_strip content)))"
  by (simp add: parse_srt_text_def parse_blocks_eq)

lemma accepted_times:
  assumes "accepted block = Some d"
  shows "finite_nonneg (sub_start d) \<and> finite_nonneg (sub_end d)"
  using assms parse_block_cases [of block] by (auto simp: accepted_def)

lemma parsed_times:
  assumes "d \<in> set (List.map_filter accepted blocks)"
  shows "finite_nonneg (sub_start d) \<and> finite_nonneg (sub_end d)"
proof -
  from assms obtain b where "accepted b = Some d"
    by (auto simp: List.map_filter_def)
  then show ?thesis by (rule accepted_times)
qed

text \<open>
  C3, as the code has it: every record of the parser of \<^verbatim>\<open>srt_to_jsx.py\<close> has a start and
  an end that are finite and not negative. Nothing compares the two.
\<close>

theorem parsed_times_finite_nonneg:
  "\<exists>subs. parse_srt_text content = Inr subs
     \<and> (\<forall>d \<in> set subs. finite_nonneg (sub_start d) \<and> finite_nonneg (sub_end d))"
  using parsed_times by (auto simp: parse_srt_text_eq)

theorem parsed_times_finite_nonneg_witness:
  "parse_srt_text backwards_doc =
     Inr [\<lparr>sub_start = Finite 5, sub_end = Finite 1, sub_text = ''Hi''\<rparr>]
   \<and> finite_nonneg (Finite 5) \<and> finite_nonneg (Finite 1)"
proof -
  from parsed_times_finite_nonneg [of backwards_doc] obtain subs where
    "parse_srt_text backwards_doc = Inr subs"
    "\<forall>d \<in> set subs. finite_nonneg (sub_start d) \<and> finite_nonneg (sub_end d)"
    by blast
  then show ?thesis by (simp add: backwards_parse)
qed

text \<open>
  The claim as the specification states it fails: a block whose end is before its start is
  not dropped. Both parsers return its record, with start 5.0 and end 1.0.
\<close>

theorem end_before_start_kept:
  "parse_srt_text backwards_doc =
     Inr [\<lparr>sub_start = Finite 5, sub_end = Finite 1, sub_text = ''Hi''\<rparr>]
   \<and> parse_srt_text_conv backwards_doc =
     Inr [\<lparr>cap_sequence = ''1'', cap_start = Finite 5, cap_end = Finite 1, cap_text = ''Hi''\<rparr>]
   \<and> \<not> float_gt (Finite 1) (Finite 5)"
  by (simp add: backwards_parse backwards_parse_conv)

section \<open>The order of records and layers\<close>

lemma parse_srt_text_conv_eq:
  "parse_srt_text_conv content =
     (case find (\<lambda>b. isl (parse_block_conv b)) (re_split_blocks (py_strip content)) of
        Some b \<Rightarrow> Inl (projl (parse_block_conv b))
      | None \<Rightarrow> Inr (List.map_filter accepted_conv (re_split_blocks (py_strip content))))"
  by (simp add: parse_srt_text_conv_def parse_blocks_conv_eq split: option.splits)

lemma add_captions_Inr:
  assumes "add_captions rt w h i jsx caps = Inr out"
  shows "\<exists>bs. list_all2 (\<lambda>(k, cap) b. caption_block rt w h k cap = Inr b) (enumerate i caps) bs
           \<and> out = jsx @ concat bs"
  using assms
proof (induction caps arbitrary: i jsx)
  case Nil
  then show ?case by simp
next
  case (Cons cap caps)
  from Cons.prems obtain b where b: "caption_block rt w h i cap = Inr b"
    and rest: "add_captions rt w h (Suc i) (jsx @ b) caps = Inr out"
    by (auto split: sum.splits)
  from Cons.IH [OF rest] obtain bs where
    "list_all2 (\<lambda>(k, cap) b. caption_block rt w h k cap = Inr b) (enumerate (Suc i) caps) bs"
    "out = (jsx @ b) @ concat bs"
    by blast
  then have "list_all2 (\<lambda>(k, cap) b. caption_block rt w h k cap = Inr b)
        (enumerate i (cap # caps)) (b # bs) \<and> out = jsx @ concat (b # bs)"
    using b by simp
  then show ?case by blast
qed

lemma generate_jsx_script_Inr:
  assumes "generate_jsx_script rt captions comp_name w h fps = Inr out"
  shows "\<exists>m bs. py_max (map cap_end captions) = Inr m
     \<and> list_all2 (\<lambda>(k, cap) b. caption_block rt w h k cap = Inr b) (enumerate 0 captions) bs
     \<and> out = script_header rt comp_name w h (float_add m (Finite 2)) fps @ concat bs @ script_footer"
proof -
  from assms obtain m jsx where m: "py_max (map cap_end captions) = Inr m"
    and a: "add_captions rt w h 0 (script_header rt comp_name w h (float_add m (Finite 2)) fps)
              captions = Inr jsx"
    and out: "out = jsx @ script_footer"
    by (auto simp: generate_jsx_script_def split: sum.splits)
  from add_captions_Inr [OF a] m out show ?thesis by auto
qed

lemma add_entries_eq:
  "add_entries rt n i jsx subs =
     jsx @ concat (map (\<lambda>(k, sub). jsx_entry rt sub @ (if int k < int n - 1 then '','' else []) @ [LF])
                    (enumerate i subs))"
  by (induction subs arbitrary: i jsx) simp_all

lemma generate_jsx_eq:
  "generate_jsx rt subtitles comp_name w h fps =
     jsx_header comp_name w h fps
     @ concat (map (\<lambda>(k, sub). jsx_entry rt sub
                      @ (if int k < int (length subtitles) - 1 then '','' else []) @ [LF])
                   (enumerate 0 subtitles))
     @ jsx_footer"
  by (simp add: generate_jsx_def add_entries_eq)

lemma py_truediv_1920: "py_truediv 1920 2 = Inr (Finite 960)"
  using round_binary64_of_int [of 960] by (simp add: py_truediv_def)

section \<open>The empty document\<close>

lemma py_strip_blank:
  assumes "\<forall>c \<in> set content. py_isspace c"
  shows "py_strip content = []"
proof -
  have d: "dropWhile py_isspace content = []"
    using assms by (induction content) auto
  show ?thesis unfolding py_strip_def d by simp
qed

lemma parse_block_empty: "parse_block [] = Inr None"
  by (simp add: parse_block_def block_lines_def py_strip_def)

lemma parse_block_conv_empty: "parse_block_conv [] = Inr None"
  by (simp add: parse_block_conv_def block_lines_def py_strip_def)

lemma blank_parse:
  assumes "\<forall>c \<in> set content. py_isspace c"
  shows "parse_srt_text content = Inr []" "parse_srt_text_conv content = Inr []"
  using py_strip_blank [OF assms]
  by (simp_all add: parse_srt_text_def parse_srt_text_conv_def parse_block_empty
      parse_block_conv_empty)

text \<open>
  C8: a document that is empty or holds white space only parses to the empty list in both
  files, with no error; then \<^verbatim>\<open>convert_srt_to_jsx\<close> of \<^verbatim>\<open>srt_to_jsx.py\<close> prints that no
  valid subtitles were found and returns \<^verbatim>\<open>False\<close>, the one of
  \<^verbatim>\<open>srt_to_jsx_converter.py\<close> raises its \<^verbatim>\<open>ValueError("No captions found in SRT file")\<close>,
  and neither writes a file.
\<close>

theorem blank_document_yields_no_captions:
  assumes "\<forall>c \<in> set content. py_isspace c"
  shows "parse_srt_text content = Inr [] \<and> parse_srt_text_conv content = Inr []
    \<and> (read_text fs srt_path = Inr content \<longrightarrow>
         convert_srt_to_jsx rt fs srt_path jsx_path_arg =
           (False,
            [Converting, InputPath srt_path,
             OutputPath (case jsx_path_arg of
                           None \<Rightarrow> py_replace ''.srt'' ''_captions.jsx'' srt_path
                         | Some p \<Rightarrow> p),
             FoundEntries 0, NoValidSubtitles],
            fs)
         \<and> convert_srt_to_jsx_conv rt fs srt_path output_path_arg = Inl NoCaptions)"
proof (intro conjI impI)
  show "parse_srt_text content = Inr []" "parse_srt_text_conv content = Inr []"
    using assms by (rule blank_parse)+
next
  assume r: "read_text fs srt_path = Inr content"
  then have e: "path_exists fs srt_path"
    by (auto simp: read_text_def path_exists_def split: option.splits)
  show "convert_srt_to_jsx rt fs srt_path jsx_path_arg =
           (False,
            [Converting, InputPath srt_path,
             OutputPath (case jsx_path_arg of
                           None \<Rightarrow> py_replace ''.srt'' ''_captions.jsx'' srt_path
                         | Some p \<Rightarrow> p),
             FoundEntries 0, NoValidSubtitles],
            fs)"
    using e r blank_parse(1) [OF assms]
    by (simp add: convert_srt_to_jsx_def parse_srt_file_def Let_def)
  show "convert_srt_to_jsx_conv rt fs srt_path output_path_arg = Inl NoCaptions"
    using e r blank_parse(2) [OF assms]
    by (simp add: convert_srt_to_jsx_conv_def parse_srt_file_conv_def)
qed

theorem blank_document_yields_no_captions_witness:
  "read_text fs0 ''a.srt'' = Inr '' \<newline> ''
   \<and> parse_srt_text '' \<newline> '' = Inr []
   \<and> convert_srt_to_jsx rt0 fs0 ''a.srt'' None =
       (False, [Converting, InputPath ''a.srt'', OutputPath ''a_captions.jsx'', FoundEntries 0,
                NoValidSubtitles], fs0)
   \<and> convert_srt_to_jsx_conv rt0 fs0 ''a.srt'' None = Inl NoCaptions"
proof -
  have ws: "\<forall>c \<in> set '' \<newline> ''. py_isspace c"
    by (simp add: py_isspace_def)
  have r: "read_text fs0 ''a.srt'' = Inr '' \<newline> ''"
    by (simp add: read_text_def fs0_def CR_def LF_def)
  have p: "py_replace ''.srt'' ''_captions.jsx'' ''a.srt'' = ''a_captions.jsx''"
    by (simp add: py_replace_def)
  show ?thesis
    using blank_document_yields_no_captions [OF ws, of fs0 "''a.srt''" rt0 None None] r
    by (simp add: p)
qed

section \<open>The sequence identifier\<close>

lemma hd_cons_head: "xs \<noteq> [] \<Longrightarrow> hd (cons_head c xs) = c # hd xs"
  by (cases xs) simp_all

lemma hd_py_split: "hd (py_split sep s) = takeWhile (\<lambda>c. c \<noteq> sep) s"
  by (induction s) (simp_all add: hd_cons_head py_split_nonempty)

lemma block_lines_nonempty: "block_lines block \<noteq> []"
  by (simp add: block_lines_def py_split_nonempty)

lemma first_line: "block_lines block ! 0 = takeWhile (\<lambda>c. c \<noteq> LF) (py_strip block)"
  using hd_py_split [of LF "py_strip block"] block_lines_nonempty [of block]
  by (simp add: block_lines_def hd_conv_nth)

lemma parse_block_conv_sequence:
  assumes "parse_block_conv block = Inr (Some d)"
  shows "cap_sequence d = py_strip (takeWhile (\<lambda>c. c \<noteq> LF) (py_strip block))"
  using assms
  by (auto simp: parse_block_conv_def Let_def first_line [symmetric]
      split: if_splits sum.splits)

lemma parse_block_tail:
  assumes "tl (block_lines b1) = tl (block_lines b2)"
  shows "parse_block b1 = parse_block b2"
proof -
  obtain x xs where l1: "block_lines b1 = x # xs"
    using block_lines_nonempty [of b1] by (cases "block_lines b1") auto
  obtain y ys where l2: "block_lines b2 = y # ys"
    using block_lines_nonempty [of b2] by (cases "block_lines b2") auto
  have "xs = ys" using assms by (simp add: l1 l2)
  then show ?thesis
    by (auto simp: parse_block_def l1 l2 Let_def numeral_2_eq_2 split: option.splits sum.splits)
qed

text \<open>
  C6, as the code has it: the parser of \<^verbatim>\<open>srt_to_jsx_converter.py\<close> stores as the sequence
  the first line of the block with white space trimmed at both ends, as text; the parser of
  \<^verbatim>\<open>srt_to_jsx.py\<close> skips the first line, so that two blocks that differ in it alone give the
  same result.
\<close>

theorem sequence_is_trimmed_first_line:
  "(parse_block_conv block = Inr (Some d) \<longrightarrow>
      cap_sequence d = py_strip (takeWhile (\<lambda>c. c \<noteq> LF) (py_strip block)))
   \<and> (tl (block_lines b1) = tl (block_lines b2) \<longrightarrow> parse_block b1 = parse_block b2)"
  using parse_block_conv_sequence parse_block_tail by blast

lemma padded_block_conv:
  "parse_block_conv padded_doc =
     Inr (Some \<lparr>cap_sequence = ''1'', cap_start = Finite 1, cap_end = Finite 2, cap_text = ''Hi''\<rparr>)"
  by (simp add: padded_doc_def parse_block_conv_def block_lines_def py_strip_def py_isspace_def
      LF_def py_split_str_def parse_srt_time_examples)

lemma padded_parse_conv:
  "parse_srt_text_conv padded_doc =
     Inr [\<lparr>cap_sequence = ''1'', cap_start = Finite 1, cap_end = Finite 2, cap_text = ''Hi''\<rparr>]"
proof -
  have s: "py_strip padded_doc = padded_doc"
    by (simp add: py_strip_def padded_doc_def py_isspace_def)
  have b: "re_split_blocks padded_doc = [padded_doc]"
    by (simp add: padded_doc_def blank_gap_def LF_def py_isspace_def)
  show ?thesis by (simp add: parse_srt_text_conv_def s b padded_block_conv)
qed

lemma first_second_tails: "tl (block_lines first_doc) = tl (block_lines second_doc)"
  by (simp add: first_doc_def second_doc_def block_lines_def py_strip_def py_isspace_def LF_def)

lemma first_second_parse: "parse_srt_text first_doc = parse_srt_text second_doc"
proof -
  have s: "py_strip first_doc = first_doc" "py_strip second_doc = second_doc"
    by (simp_all add: py_strip_def first_doc_def second_doc_def py_isspace_def)
  have b: "re_split_blocks first_doc = [first_doc]" "re_split_blocks second_doc = [second_doc]"
    by (simp_all add: first_doc_def second_doc_def blank_gap_def LF_def py_isspace_def)
  show ?thesis
    by (simp add: parse_srt_text_def s b parse_block_tail [OF first_second_tails])
qed

theorem sequence_is_trimmed_first_line_witness:
  "parse_block_conv padded_doc =
     Inr (Some \<lparr>cap_sequence = ''1'', cap_start = Finite 1, cap_end = Finite 2, cap_text = ''Hi''\<rparr>)
   \<and> py_strip (takeWhile (\<lambda>c. c \<noteq> LF) (py_strip padded_doc)) = ''1''
   \<and> tl (block_lines first_doc) = tl (block_lines second_doc)
   \<and> parse_block first_doc = parse_block second_doc"
proof -
  note inst = sequence_is_trimmed_first_line [of padded_doc
      "\<lparr>cap_sequence = ''1'', cap_start = Finite 1, cap_end = Finite 2, cap_text = ''Hi''\<rparr>"
      first_doc second_doc]
  from inst padded_block_conv
  have "py_strip (takeWhile (\<lambda>c. c \<noteq> LF) (py_strip padded_doc)) = ''1''" by simp
  moreover from inst first_second_tails
  have "parse_block first_doc = parse_block second_doc" by blast
  ultimately show ?thesis using padded_block_conv first_second_tails by simp
qed

text \<open>
  The claim as the specification states it fails in both files: the first line \<^verbatim>\<open>1\<close>
  followed by a space is stored as \<^verbatim>\<open>1\<close> by \<^verbatim>\<open>srt_to_jsx_converter.py\<close>, and
  \<^verbatim>\<open>srt_to_jsx.py\<close> returns the same records for two documents that differ in their
  first line.
\<close>

theorem sequence_not_verbatim:
  "takeWhile (\<lambda>c. c \<noteq> LF) (py_strip padded_doc) = ''1 ''
   \<and> parse_srt_text_conv padded_doc =
     Inr [\<lparr>cap_sequence = ''1'', cap_start = Finite 1, cap_end = Finite 2, cap_text = ''Hi''\<rparr>]
   \<and> first_doc \<noteq> second_doc
   \<and> parse_srt_text first_doc = parse_srt_text second_doc"
proof -
  have "takeWhile (\<lambda>c. c \<noteq> LF) (py_strip padded_doc) = ''1 ''"
    by (simp add: py_strip_def padded_doc_def py_isspace_def LF_def)
  moreover have "first_doc \<noteq> second_doc"
    by (simp add: first_doc_def second_doc_def)
  ultimately show ?thesis using padded_parse_conv first_second_parse by simp
qed

section \<open>Where quotes are escaped\<close>

lemma py_replace_chr_absent: "old \<notin> set s \<Longrightarrow> py_replace_chr old new s = s"
  by (induction s) (auto simp: py_replace_chr_def)

lemma cons_head_set:
  "xs \<noteq> [] \<Longrightarrow> l \<in> set (cons_head c xs) \<Longrightarrow> l \<in> set (tl xs) \<or> l = c # hd xs"
  by (cases xs) auto

lemma py_split_no_sep: "l \<in> set (py_split sep s) \<Longrightarrow> sep \<notin> set l"
proof (induction s arbitrary: l)
  case Nil
  then show ?case by simp
next
  case (Cons c cs)
  show ?case
  proof (cases "c = sep")
    case True
    then show ?thesis using Cons by auto
  next
    case False
    then have "l \<in> set (cons_head c (py_split sep cs))" using Cons.prems by simp
    then have "l \<in> set (tl (py_split sep cs)) \<or> l = c # hd (py_split sep cs)"
      using py_split_nonempty [of sep cs] by (rule cons_head_set [rotated])
    then show ?thesis
      using Cons.IH False py_split_nonempty [of sep cs]
      by (auto dest: list.set_sel(2) simp: hd_in_set)
  qed
qed

lemma set_py_join: "set (py_join sep xs) \<subseteq> set sep \<union> \<Union> (set ` set xs)"
  by (induction sep xs rule: py_join.induct) auto

lemma set_py_strip: "set (py_strip s) \<subseteq> set s"
proof
  fix x
  assume "x \<in> set (py_strip s)"
  then have "x \<in> set (dropWhile py_isspace (rev (dropWhile py_isspace s)))"
    by (simp add: py_strip_def)
  then have "x \<in> set (rev (dropWhile py_isspace s))" by (rule set_dropWhileD)
  then have "x \<in> set (dropWhile py_isspace s)" by simp
  then show "x \<in> set s" by (rule set_dropWhileD)
qed

lemma joined_lines_no_LF:
  "LF \<notin> set (py_strip (py_join '' '' (drop n (block_lines block))))"
proof -
  have "LF \<notin> set l" if "l \<in> set (drop n (block_lines block))" for l
    using that py_split_no_sep [of l LF "py_strip block"]
    by (auto simp: block_lines_def dest: in_set_dropD)
  then have "LF \<notin> set (py_join '' '' (drop n (block_lines block)))"
    using set_py_join [of "'' ''" "drop n (block_lines block)"] by (auto simp: LF_def)
  then show ?thesis using set_py_strip by blast
qed

lemma clean_text_eq:
  "clean_text (drop n (block_lines block)) =
     escape_quotes (py_strip (py_join '' '' (drop n (block_lines block))))"
proof -
  let ?t = "py_strip (py_join '' '' (drop n (block_lines block)))"
  have "set (py_replace_chr DQ [BS, DQ] ?t) \<subseteq> set ?t \<union> {BS, DQ}"
    by (auto simp: py_replace_chr_def split: if_splits)
  then have "LF \<notin> set (py_replace_chr DQ [BS, DQ] ?t)"
    using joined_lines_no_LF [of n block] by (auto simp: LF_def BS_def DQ_def)
  then show ?thesis
    by (simp add: clean_text_def py_replace_chr_absent) (simp add: py_replace_chr_def escape_quotes_def)
qed

lemma safe_text_eq:
  "safe_text t = concat (map (\<lambda>c. if c = DQ then [BS, DQ]
                                else if c = LF then [BS, CHR ''n''] else [c]) t)"
  by (induction t) (auto simp: safe_text_def py_replace_chr_def LF_def BS_def DQ_def)

lemma parse_block_conv_text:
  assumes "parse_block_conv block = Inr (Some d)"
  shows "cap_text d = py_strip (py_join [LF] (drop 2 (block_lines block)))"
  using assms
  by (auto simp: parse_block_conv_def Let_def split: if_splits sum.splits)

lemma parse_block_text:
  assumes "parse_block block = Inr (Some d)"
  shows "sub_text d = escape_quotes (py_strip (py_join '' '' (drop 2 (block_lines block))))"
  using assms
  by (auto simp: parse_block_def Let_def clean_text_eq split: if_splits sum.splits option.splits)

lemma caption_block_text:
  assumes "caption_block rt w h i cap = Inr b"
  shows "\<exists>first rest. b = [LF] @ unlines (first
           # add_text_line (show_nat (i + 1)) (safe_text (cap_text cap)) # rest)"
proof (cases "py_truediv w 2")
  case (Inl e)
  have "caption_block rt w h i cap = Inl e"
    unfolding caption_block_def Let_def Inl by (simp only: sum.case)
  then show ?thesis using assms by simp
next
  case (Inr half)
  have "\<exists>first rest. caption_block rt w h i cap = Inr ([LF] @ unlines (first
           # add_text_line (show_nat (i + 1)) (safe_text (cap_text cap)) # rest))"
    unfolding caption_block_def Let_def Inr add_text_line_def
    by (simp only: sum.case) (intro exI, rule refl)
  then show ?thesis using assms by auto
qed

text \<open>
  C4, as the code has it. In \<^verbatim>\<open>srt_to_jsx_converter.py\<close> the parser stores the lines of the
  cue from the third on, joined by line feeds and trimmed, with no character replaced, and
  \<^verbatim>\<open>generate_jsx_script\<close> puts a backslash before each quote (and writes a line feed as
  backslash, \<^verbatim>\<open>n\<close>) in the text of the \<^verbatim>\<open>addText\<close> statement. In \<^verbatim>\<open>srt_to_jsx.py\<close> the
  parser itself stores the text with a backslash before each quote, and \<^verbatim>\<open>generate_jsx\<close>
  emits the stored text between quotes as it is.
\<close>

theorem quotes_escaped_at_generation_in_converter:
  "(parse_block_conv block = Inr (Some d) \<longrightarrow>
      cap_text d = py_strip (py_join [LF] (drop 2 (block_lines block))))
   \<and> (caption_block rt w h i cap = Inr b \<longrightarrow>
        (\<exists>first rest. b = [LF] @ unlines (first
           # add_text_line (show_nat (i + 1)) (safe_text (cap_text cap)) # rest)))
   \<and> safe_text t = concat (map (\<lambda>c. if c = DQ then [BS, DQ]
                                    else if c = LF then [BS, CHR ''n''] else [c]) t)
   \<and> (parse_block blk = Inr (Some s) \<longrightarrow>
        sub_text s = escape_quotes (py_strip (py_join '' '' (drop 2 (block_lines blk)))))
   \<and> (\<exists>pre. jsx_entry rt s = pre @ [DQ] @ sub_text s @ [DQ] @ ''}'')"
proof (intro conjI impI)
  show "\<exists>pre. jsx_entry rt s = pre @ [DQ] @ sub_text s @ [DQ] @ ''}''"
    unfolding jsx_entry_def
    by (rule exI [of _ "''    {start: '' @ format_3f rt (sub_start s) @ '', end: ''
          @ format_3f rt (sub_end s) @ '', text: ''"]) simp
next
  assume "parse_block_conv block = Inr (Some d)"
  then show "cap_text d = py_strip (py_join [LF] (drop 2 (block_lines block)))"
    by (rule parse_block_conv_text)
next
  assume "caption_block rt w h i cap = Inr b"
  then show "\<exists>first rest. b = [LF] @ unlines (first
           # add_text_line (show_nat (i + 1)) (safe_text (cap_text cap)) # rest)"
    by (rule caption_block_text)
next
  show "safe_text t = concat (map (\<lambda>c. if c = DQ then [BS, DQ]
                                    else if c = LF then [BS, CHR ''n''] else [c]) t)"
    by (rule safe_text_eq)
next
  assume "parse_block blk = Inr (Some s)"
  then show "sub_text s = escape_quotes (py_strip (py_join '' '' (drop 2 (block_lines blk))))"
    by (rule parse_block_text)
qed

lemma quoted_block:
  "parse_block quoted_doc =
     Inr (Some \<lparr>sub_start = Finite 1, sub_end = Finite 2,
                sub_text = ''He said '' @ [BS, DQ] @ ''hi'' @ [BS, DQ]\<rparr>)"
proof -
  have m: "re_match_time_line ''00:00:01,000 --> 00:00:02,000'' = Some (''00:00:01,000'', ''00:00:02,000'')"
    by (simp add: re_match_time_line_def timestamp_pat_def arrow_pat_def py_isdigit_def
        py_isspace_def)
  show ?thesis
    by (simp add: quoted_doc_def parse_block_def block_lines_def py_strip_def py_isspace_def LF_def
        DQ_def BS_def m parse_srt_time_examples clean_text_def py_replace_chr_def)
qed

lemma quoted_block_conv:
  "parse_block_conv quoted_doc =
     Inr (Some \<lparr>cap_sequence = ''1'', cap_start = Finite 1, cap_end = Finite 2,
                cap_text = ''He said '' @ [DQ] @ ''hi'' @ [DQ]\<rparr>)"
  by (simp add: quoted_doc_def parse_block_conv_def block_lines_def py_strip_def py_isspace_def
      LF_def DQ_def py_split_str_def parse_srt_time_examples)

lemma quoted_split:
  "py_strip quoted_doc = quoted_doc" "re_split_blocks quoted_doc = [quoted_doc]"
  by (simp_all add: quoted_doc_def py_strip_def blank_gap_def py_isspace_def LF_def DQ_def)

theorem quotes_escaped_at_generation_in_converter_witness:
  "parse_block_conv quoted_doc =
     Inr (Some \<lparr>cap_sequence = ''1'', cap_start = Finite 1, cap_end = Finite 2,
                cap_text = ''He said '' @ [DQ] @ ''hi'' @ [DQ]\<rparr>)
   \<and> py_strip (py_join [LF] (drop 2 (block_lines quoted_doc))) = ''He said '' @ [DQ] @ ''hi'' @ [DQ]
   \<and> (\<exists>b. caption_block rt0 1920 1080 0
              \<lparr>cap_sequence = ''1'', cap_start = Finite 1, cap_end = Finite 2,
                cap_text = ''He said '' @ [DQ] @ ''hi'' @ [DQ]\<rparr> = Inr b)
   \<and> safe_text (''He said '' @ [DQ] @ ''hi'' @ [DQ]) = ''He said '' @ [BS, DQ] @ ''hi'' @ [BS, DQ]
   \<and> parse_block quoted_doc =
     Inr (Some \<lparr>sub_start = Finite 1, sub_end = Finite 2,
                sub_text = ''He said '' @ [BS, DQ] @ ''hi'' @ [BS, DQ]\<rparr>)"
proof -
  let ?cap = "\<lparr>cap_sequence = ''1'', cap_start = Finite 1, cap_end = Finite 2,
                cap_text = ''He said '' @ [DQ] @ ''hi'' @ [DQ]\<rparr>"
  let ?sub = "\<lparr>sub_start = Finite 1, sub_end = Finite 2,
                sub_text = ''He said '' @ [BS, DQ] @ ''hi'' @ [BS, DQ]\<rparr>"
  obtain b where b: "caption_block rt0 1920 1080 0 ?cap = Inr b"
    by (simp add: caption_block_def py_truediv_1920)
  note inst = quotes_escaped_at_generation_in_converter [of quoted_doc ?cap rt0 1920 1080 0 ?cap b
      "''He said '' @ [DQ] @ ''hi'' @ [DQ]" quoted_doc ?sub]
  from inst quoted_block_conv
  have "py_strip (py_join [LF] (drop 2 (block_lines quoted_doc))) = ''He said '' @ [DQ] @ ''hi'' @ [DQ]"
    by simp
  moreover from inst
  have "safe_text (''He said '' @ [DQ] @ ''hi'' @ [DQ]) = ''He said '' @ [BS, DQ] @ ''hi'' @ [BS, DQ]"
    by (simp add: DQ_def LF_def BS_def)
  ultimately show ?thesis using quoted_block_conv quoted_block b by blast
qed

text \<open>
  The claim as the specification states it fails in \<^verbatim>\<open>srt_to_jsx.py\<close>: the text
  \<^verbatim>\<open>He said "hi"\<close> is stored by its parser with a backslash before each quote, while the
  parser of \<^verbatim>\<open>srt_to_jsx_converter.py\<close> stores it unchanged.
\<close>

theorem parser_escapes_quotes:
  "parse_srt_text quoted_doc =
     Inr [\<lparr>sub_start = Finite 1, sub_end = Finite 2,
           sub_text = ''He said '' @ [BS, DQ] @ ''hi'' @ [BS, DQ]\<rparr>]
   \<and> parse_srt_text_conv quoted_doc =
     Inr [\<lparr>cap_sequence = ''1'', cap_start = Finite 1, cap_end = Finite 2,
           cap_text = ''He said '' @ [DQ] @ ''hi'' @ [DQ]\<rparr>]
   \<and> ''He said '' @ [BS, DQ] @ ''hi'' @ [BS, DQ] \<noteq> ''He said '' @ [DQ] @ ''hi'' @ [DQ]"
  by (simp add: parse_srt_text_def parse_srt_text_conv_def quoted_split quoted_block
      quoted_block_conv BS_def DQ_def)

section \<open>The error of one rounding\<close>

lemma binade_less: "0 < x \<Longrightarrow> x < pow2 k \<Longrightarrow> binade x < k"
proof -
  assume x: "0 < x" and k: "x < pow2 k"
  have "pow2 (binade x) \<le> x" by (rule binade_bounds(1) [OF x])
  then have "pow2 (binade x) < pow2 k" using k by simp
  then show ?thesis by (rule pow2_less_cancel)
qed

lemma binade_eq:
  assumes "0 < x" "pow2 e \<le> x" "x < pow2 (e + 1)"
  shows "binade x = e"
proof -
  have "binade x < e + 1" using assms(1,3) by (rule binade_less)
  moreover have "pow2 e < pow2 (binade x + 1)"
    using assms(2) binade_bounds(2) [OF assms(1)] by simp
  then have "e < binade x + 1" by (rule pow2_less_cancel)
  ultimately show ?thesis by simp
qed

lemma round_half_even_unique:
  assumes "\<bar>q - of_int m\<bar> < 1 / 2"
  shows "round_half_even q = m"
proof -
  let ?r = "round_half_even q"
  have "(of_int ?r :: rat) < of_int m + 1" "(of_int m :: rat) - 1 < of_int ?r"
    using round_half_even_bounds [of q] assms by linarith+
  then have "(of_int ?r :: rat) < of_int (m + 1)" "(of_int (m - 1) :: rat) < of_int ?r"
    by simp_all
  then have "?r < m + 1" "m - 1 < ?r" by (simp_all only: of_int_less_iff)
  then show ?thesis by simp
qed

lemma round_binary64_eval:
  assumes "0 < x" "pow2 e \<le> x" "x < pow2 (e + 1)" "- 1022 \<le> e"
    and "\<bar>x / pow2 (e - 52) - of_int m\<bar> < 1 / 2"
    and "of_int m * pow2 (e - 52) < pow2 1024"
  shows "round_binary64 x = Finite (of_int m * pow2 (e - 52))"
proof -
  have b: "binade x = e" using assms(1-3) by (rule binade_eq)
  have r: "round_half_even (x / pow2 (e - 52)) = m" using assms(5) by (rule round_half_even_unique)
  have ax: "\<bar>x\<bar> = x" using assms(1) by simp
  have mx: "max (binade x) (- 1022) = e" using b assms(4) by simp
  have nz: "x \<noteq> 0" using assms(1) by simp
  show ?thesis
    unfolding round_binary64_def Let_def ax mx r
    using assms(1,6) nz by (simp add: not_le [symmetric])
qed

lemma round_binary64_near:
  assumes "0 \<le> x" "x < pow2 k" "- 1021 \<le> k" "k \<le> 1000"
  shows "\<exists>r. round_binary64 x = Finite r \<and> 0 \<le> r \<and> \<bar>r - x\<bar> \<le> pow2 (k - 54)"
proof (cases "x = 0")
  case True
  then show ?thesis using pow2_pos [of "k - 54"] by (simp add: round_binary64_def)
next
  case False
  then have xpos: "0 < x" using assms(1) by simp
  define e where "e = max (binade x) (- 1022)"
  define u where "u = pow2 (e - 52)"
  define r where "r = of_int (round_half_even (x / u)) * u"
  have upos: "0 < u" by (simp add: u_def pow2_pos)
  have "binade x < k" using xpos assms(2) by (rule binade_less)
  then have "e - 52 \<le> k - 53" using assms(3) by (simp add: e_def)
  then have "u \<le> pow2 (k - 53)" unfolding u_def by (rule pow2_mono)
  also have "pow2 (k - 53) = 2 * pow2 (k - 54)"
    using pow2_add [of 1 "k - 54"] by (simp add: pow2_def)
  finally have ule: "u / 2 \<le> pow2 (k - 54)" by simp
  have "of_int (round_half_even (x / u)) * u \<le> (x / u + 1 / 2) * u"
    "(x / u - 1 / 2) * u \<le> of_int (round_half_even (x / u)) * u"
    using round_half_even_bounds [of "x / u"] upos by (simp_all only: mult_le_cancel_right_pos)
  moreover have "(x / u + 1 / 2) * u = x + u / 2" "(x / u - 1 / 2) * u = x - u / 2"
    using upos by (simp_all add: field_simps)
  ultimately have near: "\<bar>r - x\<bar> \<le> u / 2" unfolding r_def by linarith
  then have close: "\<bar>r - x\<bar> \<le> pow2 (k - 54)" using ule by linarith
  have rge: "0 \<le> r"
    unfolding r_def using round_half_even_nonneg [of "x / u"] xpos upos by simp
  have "pow2 (k - 54) \<le> pow2 1000" "pow2 k \<le> pow2 1000"
    using assms(4) by (simp_all add: pow2_mono)
  then have "r < 2 * pow2 1000" using close assms(2) by linarith
  also have "2 * pow2 1000 = pow2 1001" using pow2_add [of 1 1000] by (simp add: pow2_def)
  also have "pow2 1001 \<le> pow2 1024" by (rule pow2_mono) simp
  finally have "r < pow2 1024" .
  then have "round_binary64 x = Finite r"
    using xpos by (simp add: round_binary64_def Let_def e_def u_def r_def not_le [symmetric])
  then show ?thesis using rge close by simp
qed

section \<open>The value of a timestamp\<close>

lemma pow2_values:
  "pow2 7 = 128" "pow2 19 = 524288" "pow2 (- 47) = 1 / 2 ^ 47" "pow2 (- 35) = 1 / 2 ^ 35"
  by (simp_all add: pow2_def)

lemma two_roundings_bound:
  fixes n q s r :: rat
  assumes "\<bar>s - q\<bar> \<le> 1 / 2 ^ 47" "\<bar>r - (n + s)\<bar> \<le> 1 / 2 ^ 35"
  shows "\<bar>r - (n + q)\<bar> \<le> 1 / 2 ^ 34"
proof -
  have "(1::rat) / 2 ^ 47 \<le> 1 / 2 ^ 35" by simp
  moreover have "(1::rat) / 2 ^ 35 + 1 / 2 ^ 35 = 1 / 2 ^ 34" by simp
  ultimately show ?thesis using assms by linarith
qed

lemma eighths_exact:
  assumes "a \<le> 400000" "j \<le> 8"
  shows "round_binary64 (of_nat a + of_nat j / 8) = Finite (of_nat a + of_nat j / 8)"
proof -
  have "\<bar>int (8 * a + j)\<bar> \<le> 3200008" using assms by simp
  then have "\<bar>int (8 * a + j)\<bar> < 2 ^ 53" by simp
  then have "round_binary64 (of_int (int (8 * a + j)) / 2 ^ 3)
      = Finite (of_int (int (8 * a + j)) / 2 ^ 3)"
    by (rule round_binary64_dyadic) simp
  moreover have "(of_int (int (8 * a + j)) / 2 ^ 3 :: rat) = of_nat a + of_nat j / 8"
    by (simp add: add_divide_distrib)
  ultimately show ?thesis by (simp only:)
qed

lemma round_binary64_tie:
  assumes "0 < x" "pow2 e \<le> x" "x < pow2 (e + 1)" "- 1022 \<le> e"
    and "round_half_even (x / pow2 (e - 52)) = m"
    and "of_int m * pow2 (e - 52) < pow2 1024"
  shows "round_binary64 x = Finite (of_int m * pow2 (e - 52))"
proof -
  have b: "binade x = e" using assms(1-3) by (rule binade_eq)
  have ax: "\<bar>x\<bar> = x" using assms(1) by simp
  have mx: "max (binade x) (- 1022) = e" using b assms(4) by simp
  have nz: "x \<noteq> 0" using assms(1) by simp
  show ?thesis
    unfolding round_binary64_def Let_def ax mx assms(5)
    using assms(1,6) nz by (simp add: not_le [symmetric])
qed

lemma seconds_field_bounds:
  assumes "py_isdigit h1" "py_isdigit h2" "py_isdigit m1" "py_isdigit m2"
    "py_isdigit s1" "py_isdigit s2" "py_isdigit k1" "py_isdigit k2" "py_isdigit k3"
  shows "two_digits h1 h2 * 3600 + two_digits m1 m2 * 60 \<le> 362340"
    "two_digits s1 s2 \<le> 99" "three_digits k1 k2 k3 \<le> 999"
proof -
  have d: "digit_val h1 \<le> 9" "digit_val h2 \<le> 9" "digit_val m1 \<le> 9" "digit_val m2 \<le> 9"
    "digit_val s1 \<le> 9" "digit_val s2 \<le> 9" "digit_val k1 \<le> 9" "digit_val k2 \<le> 9" "digit_val k3 \<le> 9"
    using assms by (simp_all add: digit_facts)
  show "two_digits h1 h2 * 3600 + two_digits m1 m2 * 60 \<le> 362340"
    "two_digits s1 s2 \<le> 99" "three_digits k1 k2 k3 \<le> 999"
    using d by (simp_all add: two_digits_def three_digits_def)
qed

lemma round_binary64_form:
  assumes "round_binary64 x = Finite r"
  shows "\<exists>m j. r = of_int m / 2 ^ j"
proof (cases "x = 0")
  case True
  then have "r = of_int 0 / 2 ^ 0" using assms by (simp add: round_binary64_def)
  then show ?thesis by blast
next
  case False
  define z where "z = max (binade \<bar>x\<bar>) (- 1022) - 52"
  define n where "n = round_half_even (\<bar>x\<bar> / pow2 z)"
  from assms False have r: "r = (if 0 < x then of_int n * pow2 z else - (of_int n * pow2 z))"
    by (simp add: round_binary64_def Let_def z_def n_def split: if_splits)
  have "\<exists>m j. of_int n * pow2 z = of_int m / 2 ^ j"
  proof (cases "0 \<le> z")
    case True
    then have "of_int n * pow2 z = of_int (n * 2 ^ nat z) / 2 ^ 0" by (simp add: pow2_def)
    then show ?thesis by blast
  next
    case False
    then have "of_int n * pow2 z = of_int n / 2 ^ nat (- z)" by (simp add: pow2_def)
    then show ?thesis by blast
  qed
  then obtain m j where mj: "of_int n * pow2 z = of_int m / 2 ^ j" by blast
  show ?thesis
  proof (cases "0 < x")
    case True
    then show ?thesis using r mj by auto
  next
    case False
    then have "r = of_int (- m) / 2 ^ j" using r mj by simp
    then show ?thesis by blast
  qed
qed

lemma thousandth_dyadic:
  fixes a c :: nat
  assumes "(of_int m / 2 ^ j :: rat) = of_nat a + of_nat c / 1000"
  shows "125 dvd c"
proof -
  have "(of_int m :: rat) * 1000 = (of_nat a * 1000 + of_nat c) * 2 ^ j"
    using assms by (simp add: field_simps)
  then have "(of_int (m * 1000) :: rat) = of_int ((int a * 1000 + int c) * 2 ^ j)"
    by simp
  then have e: "m * 1000 = (int a * 1000 + int c) * 2 ^ j"
    by (simp only: of_int_eq_iff)
  have "(125::int) dvd m * 1000" by simp
  then have d: "(125::int) dvd (int a * 1000 + int c) * 2 ^ j" by (simp only: e)
  have "coprime (125::int) 2" by simp
  then have "coprime (125::int) (2 ^ j)" by simp
  then have "(125::int) dvd int a * 1000 + int c"
    using d by (simp add: coprime_dvd_mult_left_iff)
  moreover have "(125::int) dvd int a * 1000" by simp
  ultimately have "(125::int) dvd int c" by (simp only: dvd_add_right_iff)
  then show ?thesis by presburger
qed

lemma inexact_unless_eighths:
  fixes a c :: nat
  assumes "round_binary64 x = Finite r" "r = of_nat a + of_nat c / 1000"
  shows "125 dvd c"
proof -
  from round_binary64_form [OF assms(1)] obtain m j where "r = of_int m / 2 ^ j" by blast
  then show ?thesis using assms(2) thousandth_dyadic by metis
qed

lemma sum_of_two_roundings:
  fixes a b c :: nat
  assumes "a \<le> 362340" "b \<le> 99" "c \<le> 999"
  shows "\<exists>r. float_add (Finite (of_nat a)) (round_binary64 (of_nat b + of_nat c / 1000)) = Finite r
     \<and> \<bar>r - (of_nat (a + b) + of_nat c / 1000)\<bar> \<le> 1 / 2 ^ 34
     \<and> (125 dvd c \<longleftrightarrow> r = of_nat (a + b) + of_nat c / 1000)"
proof -
  define n :: rat where "n = of_nat a"
  define q :: rat where "q = of_nat b + of_nat c / 1000"
  have "(of_nat a :: rat) \<le> of_nat 362340" "(of_nat b :: rat) \<le> of_nat 99"
    "(of_nat c :: rat) \<le> of_nat 999"
    using assms by (simp_all only: of_nat_le_iff)
  then have nb: "0 \<le> n" "n \<le> 362340" and qb: "0 \<le> q" "q < 100"
    by (simp_all add: n_def q_def)
  have "q < pow2 7" using qb by (simp add: pow2_values)
  with qb(1) obtain s where s: "round_binary64 q = Finite s" "0 \<le> s" "\<bar>s - q\<bar> \<le> pow2 (7 - 54)"
    using round_binary64_near [of q 7] by auto
  have sq: "\<bar>s - q\<bar> \<le> 1 / 2 ^ 47" using s(3) by (simp add: pow2_values)
  have "(1::rat) / 2 ^ 47 \<le> 1" by simp
  then have "s \<le> q + 1" using sq by linarith
  then have "n + s < 524288" using nb qb by linarith
  then have "n + s < pow2 19" by (simp add: pow2_values)
  moreover have "0 \<le> n + s" using nb s by simp
  ultimately obtain r where r: "round_binary64 (n + s) = Finite r" "\<bar>r - (n + s)\<bar> \<le> pow2 (19 - 54)"
    using round_binary64_near [of "n + s" 19] by auto
  have rs: "\<bar>r - (n + s)\<bar> \<le> 1 / 2 ^ 35" using r(2) by (simp add: pow2_values)
  have fa: "float_add (Finite n) (round_binary64 q) = Finite r"
    by (simp only: s(1) float_add.simps r(1))
  have e: "of_nat (a + b) + of_nat c / 1000 = n + q" by (simp add: n_def q_def)
  have close: "\<bar>r - (n + q)\<bar> \<le> 1 / 2 ^ 34" using sq rs by (rule two_roundings_bound)
  have exact: "r = n + q" if "125 dvd c"
  proof -
    from that obtain j where j: "c = 125 * j" by (auto simp: dvd_def)
    then have j8: "j \<le> 8" using assms(3) by simp
    have q8: "q = of_nat b + of_nat j / 8" by (simp add: q_def j)
    have nq8: "n + q = of_nat (a + b) + of_nat j / 8" by (simp add: n_def q8)
    have "round_binary64 q = Finite q"
      unfolding q8 using assms(2) j8 by (intro eighths_exact) simp_all
    then have "s = q" using s(1) by simp
    moreover have "round_binary64 (n + q) = Finite (n + q)"
      unfolding nq8 using assms(1,2) j8 by (intro eighths_exact) simp_all
    ultimately show ?thesis using r(1) by simp
  qed
  have inexact: "125 dvd c" if "r = n + q"
    using inexact_unless_eighths [OF r(1), of "a + b" c] that e by simp
  have "float_add (Finite (of_nat a)) (round_binary64 (of_nat b + of_nat c / 1000)) = Finite r"
    using fa by (simp only: n_def q_def)
  moreover have "\<bar>r - (of_nat (a + b) + of_nat c / 1000)\<bar> \<le> 1 / 2 ^ 34"
    using close by (simp only: e)
  moreover have "125 dvd c \<longleftrightarrow> r = of_nat (a + b) + of_nat c / 1000"
    unfolding e using exact inexact by blast
  ultimately show ?thesis by blast
qed

text \<open>
  C7, as the code has it: a timestamp \<^verbatim>\<open>HH:MM:SS,mmm\<close> converts to the float sum of the
  integer \<^verbatim>\<open>hours * 3600 + minutes * 60\<close> and the float nearest to \<^verbatim>\<open>SS.mmm\<close>. That
  float is finite and differs from \<^verbatim>\<open>hours * 3600 + minutes * 60 + SS.mmm\<close> by at most
  \<open>2 ^ - 34\<close>; it is that number if and only if the milliseconds are a multiple of 125,
  as in \<^verbatim>\<open>01:02:03,500\<close>, which converts to exactly 3723.5.
\<close>

theorem timestamp_conversion:
  assumes "py_isdigit h1" "py_isdigit h2" "py_isdigit m1" "py_isdigit m2"
    "py_isdigit s1" "py_isdigit s2" "py_isdigit k1" "py_isdigit k2" "py_isdigit k3"
  shows "parse_srt_time [h1, h2, CHR '':'', m1, m2, CHR '':'', s1, s2, CHR '','', k1, k2, k3] =
      Inr (float_add (Finite (of_nat (two_digits h1 h2 * 3600 + two_digits m1 m2 * 60)))
            (round_binary64 (of_nat (two_digits s1 s2) + of_nat (three_digits k1 k2 k3) / 1000)))
    \<and> (\<exists>r. parse_srt_time [h1, h2, CHR '':'', m1, m2, CHR '':'', s1, s2, CHR '','', k1, k2, k3]
            = Inr (Finite r)
          \<and> \<bar>r - (of_nat (two_digits h1 h2 * 3600 + two_digits m1 m2 * 60 + two_digits s1 s2)
                  + of_nat (three_digits k1 k2 k3) / 1000)\<bar> \<le> 1 / 2 ^ 34
          \<and> (125 dvd three_digits k1 k2 k3 \<longleftrightarrow>
                r = of_nat (two_digits h1 h2 * 3600 + two_digits m1 m2 * 60 + two_digits s1 s2)
                    + of_nat (three_digits k1 k2 k3) / 1000))"
proof -
  note b = seconds_field_bounds [OF assms]
  have p: "parse_srt_time [h1, h2, CHR '':'', m1, m2, CHR '':'', s1, s2, CHR '','', k1, k2, k3] =
      Inr (float_add (Finite (of_nat (two_digits h1 h2 * 3600 + two_digits m1 m2 * 60)))
            (round_binary64 (of_nat (two_digits s1 s2) + of_nat (three_digits k1 k2 k3) / 1000)))"
    using assms by (rule parse_srt_time_digits)
  show ?thesis
    unfolding p using sum_of_two_roundings [OF b] by simp
qed

theorem timestamp_conversion_witness:
  "py_isdigit (CHR ''0'') \<and> py_isdigit (CHR ''1'') \<and> py_isdigit (CHR ''2'')
   \<and> py_isdigit (CHR ''3'') \<and> py_isdigit (CHR ''5'')
   \<and> 125 dvd three_digits (CHR ''5'') (CHR ''0'') (CHR ''0'')
   \<and> parse_srt_time ''01:02:03,500'' = Inr (Finite (7447 / 2))"
proof -
  have v: "two_digits (CHR ''0'') (CHR ''1'') = 1" "two_digits (CHR ''0'') (CHR ''2'') = 2"
    "two_digits (CHR ''0'') (CHR ''3'') = 3" "three_digits (CHR ''5'') (CHR ''0'') (CHR ''0'') = 500"
    by (simp_all add: two_digits_def three_digits_def digit_vals)
  have d: "(125::nat) dvd 500" by simp
  note inst = timestamp_conversion [OF digit_chars(1) digit_chars(2) digit_chars(1) digit_chars(3)
      digit_chars(1) digit_chars(4) digit_chars(6) digit_chars(1) digit_chars(1)]
  from inst obtain r where "parse_srt_time ''01:02:03,500'' = Inr (Finite r)"
    "125 dvd three_digits (CHR ''5'') (CHR ''0'') (CHR ''0'') \<longrightarrow>
       r = of_nat (two_digits (CHR ''0'') (CHR ''1'') * 3600 + two_digits (CHR ''0'') (CHR ''2'') * 60
                   + two_digits (CHR ''0'') (CHR ''3''))
           + of_nat (three_digits (CHR ''5'') (CHR ''0'') (CHR ''0'')) / 1000"
    by blast
  then show ?thesis using d by (simp add: v digit_chars)
qed

text \<open>
  The claim as the specification states it fails: \<^verbatim>\<open>00:00:00,001\<close> does not convert to
  one thousandth, which is no binary64 number, but to the float nearest to it,
  \<open>1152921504606847 / 2 ^ 60\<close>.
\<close>

theorem millisecond_not_exact:
  "parse_srt_time ''00:00:00,001'' = Inr (Finite (1152921504606847 / 2 ^ 60))
   \<and> (1152921504606847 / 2 ^ 60 :: rat) \<noteq> 0 * 3600 + 0 * 60 + 1 / 1000"
proof -
  have "round_binary64 (1 / 1000) = Finite (of_int 4611686018427388 * pow2 (- 10 - 52))"
    by (rule round_binary64_eval) (simp_all add: pow2_def)
  then have a: "round_binary64 (1 / 1000) = Finite (1152921504606847 / 2 ^ 60)"
    by (simp add: pow2_def)
  have b: "round_binary64 (1152921504606847 / 2 ^ 60) = Finite (1152921504606847 / 2 ^ 60)"
    using round_binary64_dyadic [of 1152921504606847 60] by simp
  have "parse_srt_time ''00:00:00,001'' =
      Inr (float_add (Finite (of_nat (two_digits (CHR ''0'') (CHR ''0'') * 3600
             + two_digits (CHR ''0'') (CHR ''0'') * 60)))
            (round_binary64 (of_nat (two_digits (CHR ''0'') (CHR ''0''))
               + of_nat (three_digits (CHR ''0'') (CHR ''0'') (CHR ''1'')) / 1000)))"
    by (rule parse_srt_time_digits) (simp_all add: digit_chars)
  also have "\<dots> = Inr (Finite (1152921504606847 / 2 ^ 60))"
    using a b by (simp add: two_digits_def three_digits_def digit_vals)
  finally show ?thesis by simp
qed

text \<open>
  Nor is the result always the float nearest to the exact sum: \<^verbatim>\<open>00:11:21,036\<close> converts
  to \<open>93600875116757 / 2 ^ 37\<close>, which Python prints as \<^verbatim>\<open>681.0360000000001\<close>, while
  the float nearest to 681.036 is \<open>5990456007472447 / 2 ^ 43\<close>.
\<close>

lemma two_roundings_not_nearest:
  "parse_srt_time ''00:11:21,036'' = Inr (Finite (93600875116757 / 2 ^ 37))"
  "round_binary64 (681036 / 1000) = Finite (5990456007472447 / 2 ^ 43)"
  "(93600875116757 / 2 ^ 37 :: rat) \<noteq> 5990456007472447 / 2 ^ 43"
proof -
  have "round_binary64 (21036 / 1000) = Finite (of_int 5921107610085360 * pow2 (4 - 52))"
    by (rule round_binary64_eval) (simp_all add: pow2_def)
  then have a: "round_binary64 (21036 / 1000) = Finite (370069225630335 / 2 ^ 44)"
    by (simp add: pow2_def)
  have fl: "\<lfloor>11980912014944895 / 2 :: rat\<rfloor> = 5990456007472447"
    by (rule floor_unique) simp_all
  have "round_binary64 (660 + 370069225630335 / 2 ^ 44)
      = Finite (of_int 5990456007472448 * pow2 (9 - 52))"
    by (rule round_binary64_tie) (simp_all add: pow2_def round_half_even_def Let_def fl)
  then have b: "round_binary64 (660 + 370069225630335 / 2 ^ 44) = Finite (93600875116757 / 2 ^ 37)"
    by (simp add: pow2_def)
  have "parse_srt_time ''00:11:21,036'' =
      Inr (float_add (Finite (of_nat (two_digits (CHR ''0'') (CHR ''0'') * 3600
             + two_digits (CHR ''1'') (CHR ''1'') * 60)))
            (round_binary64 (of_nat (two_digits (CHR ''2'') (CHR ''1''))
               + of_nat (three_digits (CHR ''0'') (CHR ''3'') (CHR ''6'')) / 1000)))"
    by (rule parse_srt_time_digits) (simp_all add: digit_chars)
  also have "\<dots> = Inr (Finite (93600875116757 / 2 ^ 37))"
    using a b by (simp add: two_digits_def three_digits_def digit_vals)
  finally show "parse_srt_time ''00:11:21,036'' = Inr (Finite (93600875116757 / 2 ^ 37))" .
  have "round_binary64 (681036 / 1000) = Finite (of_int 5990456007472447 * pow2 (9 - 52))"
    by (rule round_binary64_eval) (simp_all add: pow2_def)
  then show "round_binary64 (681036 / 1000) = Finite (5990456007472447 / 2 ^ 43)"
    by (simp add: pow2_def)
  show "(93600875116757 / 2 ^ 37 :: rat) \<noteq> 5990456007472447 / 2 ^ 43" by simp
qed

section \<open>Times that the parser of \<^verbatim>\<open>srt_to_jsx_converter.py\<close> lets through\<close>

text \<open>
  The parser of \<^verbatim>\<open>srt_to_jsx_converter.py\<close> has no pattern on the timing line, so the
  times of its records need not be finite or non-negative: \<^verbatim>\<open>int\<close> takes a sign and
  \<^verbatim>\<open>float\<close> takes \<^verbatim>\<open>inf\<close>.
\<close>

lemma converter_parser_keeps_negative_and_infinite:
  "parse_srt_text_conv signed_doc =
     Inr [\<lparr>cap_sequence = ''1'', cap_start = Finite (- 3600), cap_end = PosInf, cap_text = ''x''\<rparr>]"
proof -
  have i: "py_int ''-1'' = Some (- 1)" "py_int ''00'' = Some 0"
    by (simp_all add: py_int_def num_strip_def num_isspace_def split_sign_def py_isdigit_def
        digits_val_def digit_vals int_max_str_digits_def)
  have f: "py_float ''00'' = Some (Finite 0)" "py_float ''inf'' = Some PosInf"
    by (simp_all add: py_float_def num_strip_def num_isspace_def split_sign_def float_number_def
        is_e_def py_isdigit_def digits_val_def digit_vals pow10_def lower_chr_def
        round_binary64_def)
  have n: "int_to_float (- 3600) = Inr (Finite (- 3600))" "int_to_float 0 = Inr (Finite 0)"
    using int_to_float_small [of "- 3600"] int_to_float_small [of 0] by simp_all
  have r: "round_binary64 (- 3600) = Finite (- 3600)"
    using round_binary64_of_int [of "- 3600"] by simp
  have t1: "parse_srt_time ''-1:00:00'' = Inr (Finite (- 3600))"
    by (simp add: parse_srt_time_def py_replace_chr_def Let_def i f n r)
  have t2: "parse_srt_time ''00:00:inf'' = Inr PosInf"
    by (simp add: parse_srt_time_def py_replace_chr_def Let_def i f n)
  have s: "py_strip signed_doc = signed_doc" "re_split_blocks signed_doc = [signed_doc]"
    by (simp_all add: signed_doc_def py_strip_def blank_gap_def py_isspace_def LF_def)
  have b: "parse_block_conv signed_doc =
      Inr (Some \<lparr>cap_sequence = ''1'', cap_start = Finite (- 3600), cap_end = PosInf,
                 cap_text = ''x''\<rparr>)"
    by (simp add: signed_doc_def parse_block_conv_def block_lines_def py_strip_def py_isspace_def
        LF_def py_split_str_def t1 t2)
  show ?thesis by (simp add: parse_srt_text_conv_def s b)
qed

section \<open>The duration of the composition\<close>

lemma show_int_examples:
  "show_int 1920 = ''1920''" "show_int 1080 = ''1080''" "show_int 30 = ''30''"
  by (simp_all add: show_int_def digit_chr_def char_of_def bit_0)

lemma late_times:
  "parse_srt_time ''00:01:01,000'' = Inr (Finite 61)"
  "parse_srt_time ''00:01:05,000'' = Inr (Finite 65)"
proof -
  have r: "round_binary64 1 = Finite 1" "round_binary64 5 = Finite 5"
    "round_binary64 61 = Finite 61" "round_binary64 65 = Finite 65"
    using round_binary64_of_int [of 1] round_binary64_of_int [of 5]
      round_binary64_of_int [of 61] round_binary64_of_int [of 65]
    by simp_all
  show "parse_srt_time ''00:01:01,000'' = Inr (Finite 61)"
    using parse_srt_time_digits [of "CHR ''0''" "CHR ''0''" "CHR ''0''" "CHR ''1''" "CHR ''0''"
        "CHR ''1''" "CHR ''0''" "CHR ''0''" "CHR ''0''"]
    by (simp add: digit_chars two_digits_def three_digits_def digit_vals r)
  show "parse_srt_time ''00:01:05,000'' = Inr (Finite 65)"
    using parse_srt_time_digits [of "CHR ''0''" "CHR ''0''" "CHR ''0''" "CHR ''1''" "CHR ''0''"
        "CHR ''5''" "CHR ''0''" "CHR ''0''" "CHR ''0''"]
    by (simp add: digit_chars two_digits_def three_digits_def digit_vals r)
qed

lemma late_parse:
  "parse_srt_text late_doc = Inr [late_subtitle]"
  "parse_srt_text_conv late_doc = Inr [late_caption]"
proof -
  have m: "re_match_time_line ''00:01:01,000 --> 00:01:05,000'' = Some (''00:01:01,000'', ''00:01:05,000'')"
    by (simp add: re_match_time_line_def timestamp_pat_def arrow_pat_def py_isdigit_def
        py_isspace_def)
  have s: "py_strip late_doc = late_doc" "re_split_blocks late_doc = [late_doc]"
    by (simp_all add: late_doc_def py_strip_def blank_gap_def py_isspace_def LF_def)
  have p: "parse_block late_doc = Inr (Some late_subtitle)"
    by (simp add: late_doc_def parse_block_def block_lines_def py_strip_def py_isspace_def LF_def
        m late_times clean_text_def py_replace_chr_def DQ_def BS_def late_subtitle_def)
  have c: "parse_block_conv late_doc = Inr (Some late_caption)"
    by (simp add: late_doc_def parse_block_conv_def block_lines_def py_strip_def py_isspace_def
        LF_def py_split_str_def late_times late_caption_def)
  show "parse_srt_text late_doc = Inr [late_subtitle]"
    by (simp add: parse_srt_text_def s p)
  show "parse_srt_text_conv late_doc = Inr [late_caption]"
    by (simp add: parse_srt_text_conv_def s c)
qed

text \<open>
  C5: the document \<open>late_doc\<close> parses to one subtitle that ends at 65 seconds, and for it
  \<^verbatim>\<open>generate_jsx\<close> of \<^verbatim>\<open>srt_to_jsx.py\<close> still creates the composition with the
  duration \<^verbatim>\<open>60\<close>, which is written in its header as a constant.
\<close>

theorem generate_jsx_duration_is_sixty:
  "parse_srt_text late_doc = Inr [late_subtitle]
   \<and> generate_jsx rt [late_subtitle] ''Captions'' 1920 1080 30 =
     unlines
       [''// Auto-generated After Effects caption script'',
        ''// Created from SRT file conversion'',
        [],
        ''// Create new composition'',
        ''var comp = app.project.items.addComp('' @ [DQ] @ ''Captions'' @ [DQ]
           @ '', 1920, 1080, 1, 60, 30);'',
        [],
        ''// Caption data'',
        ''var captions = ['']
     @ jsx_entry rt late_subtitle @ [LF] @ jsx_footer
   \<and> sub_end late_subtitle = Finite 65 \<and> float_gt (Finite 65) (Finite 60)"
  by (simp add: late_parse generate_jsx_def jsx_header_def show_int_examples late_subtitle_def)

text \<open>
  \<^verbatim>\<open>generate_jsx_script\<close> of \<^verbatim>\<open>srt_to_jsx_converter.py\<close> does compute the duration: its
  header holds the float sum of the greatest end and 2.
\<close>

lemma converter_duration_is_max_plus_two:
  assumes "generate_jsx_script rt captions comp_name w h fps = Inr out"
  shows "\<exists>m body. py_max (map cap_end captions) = Inr m
     \<and> out = script_header rt comp_name w h (float_add m (Finite 2)) fps @ body"
  using generate_jsx_script_Inr [OF assms] by blast

text \<open>For the same document its header holds 67.0.\<close>

lemma converter_duration_of_late_doc:
  "parse_srt_text_conv late_doc = Inr [late_caption]
   \<and> (\<exists>body. generate_jsx_script rt0 [late_caption] ''Captions'' 1920 1080 30
         = Inr (script_header rt0 ''Captions'' 1920 1080 (Finite 67) 30 @ body))"
proof -
  obtain x where x: "caption_block rt0 1920 1080 0 late_caption = Inr x"
    by (simp add: caption_block_def py_truediv_1920)
  have r: "round_binary64 67 = Finite 67"
    using round_binary64_of_int [of 67] by simp
  have ce: "cap_end late_caption = Finite 65"
    by (simp add: late_caption_def)
  have "generate_jsx_script rt0 [late_caption] ''Captions'' 1920 1080 30
      = Inr (script_header rt0 ''Captions'' 1920 1080 (Finite 67) 30 @ x @ script_footer)"
    by (simp add: generate_jsx_script_def py_max_def x r ce)
  then show ?thesis using late_parse(2) by blast
qed

section \<open>When the conversion of a timestamp fails\<close>

lemma py_replace_chr_append:
  "py_replace_chr old new (s @ t) = py_replace_chr old new s @ py_replace_chr old new t"
  by (simp add: py_replace_chr_def)

lemma cons_head_append: "ps \<noteq> [] \<Longrightarrow> cons_head c ps @ qs = cons_head c (ps @ qs)"
  by (cases ps) simp_all

lemma py_split_append_sep:
  "py_split sep (s @ sep # t) = py_split sep s @ py_split sep t"
  by (induction s) (simp_all add: cons_head_append py_split_nonempty)

lemma parse_srt_time_more:
  assumes "py_split (CHR '':'') (py_replace_chr (CHR '','') ''.'' s) = f1 # f2 # f3 # rest"
  shows "parse_srt_time s =
     (case py_int f1 of
        None \<Rightarrow> Inl ValueError
      | Some h \<Rightarrow>
          (case py_int f2 of
             None \<Rightarrow> Inl ValueError
           | Some m \<Rightarrow>
               (case py_float f3 of
                  None \<Rightarrow> Inl ValueError
                | Some sec \<Rightarrow>
                    (case int_to_float (h * 3600 + m * 60) of
                       Inl e \<Rightarrow> Inl e
                     | Inr n \<Rightarrow> Inr (float_add n sec)))))"
  using assms by (simp add: parse_srt_time_def Let_def split: option.splits)

lemma parse_srt_time_extra_field:
  assumes "3 \<le> length (py_split (CHR '':'') (py_replace_chr (CHR '','') ''.'' s))"
  shows "parse_srt_time (s @ CHR '':'' # t) = parse_srt_time s"
proof -
  let ?p = "py_split (CHR '':'') (py_replace_chr (CHR '','') ''.'' s)"
  from assms obtain f1 f2 f3 rest where p: "?p = f1 # f2 # f3 # rest"
    using py_split_shape [of "CHR '':''" "py_replace_chr (CHR '','') ''.'' s"] by auto
  have "py_replace_chr (CHR '','') ''.'' (s @ CHR '':'' # t)
      = py_replace_chr (CHR '','') ''.'' s @ CHR '':'' # py_replace_chr (CHR '','') ''.'' t"
    by (simp add: py_replace_chr_def)
  then have "py_split (CHR '':'') (py_replace_chr (CHR '','') ''.'' (s @ CHR '':'' # t))
      = f1 # f2 # f3 # (rest @ py_split (CHR '':'') (py_replace_chr (CHR '','') ''.'' t))"
    by (simp only: py_split_append_sep p append_Cons)
  then show ?thesis
    using p by (simp only: parse_srt_time_more)
qed

text \<open>
  C2, as the code has it: the conversion fails exactly when the string has fewer than three
  fields between colons, or the first or the second field is not an integer literal, or the
  third is not a float literal, or the integer \<^verbatim>\<open>hours * 3600 + minutes * 60\<close> is beyond
  the float range. Fields after the third are not looked at: whenever the first three
  fields convert, the result is their value whatever follows, and a string of three or
  more fields converts as it does with a further field appended.
\<close>

theorem parse_srt_time_fails_iff:
  "((\<exists>e. parse_srt_time s = Inl e) \<longleftrightarrow>
     (case py_split (CHR '':'') (py_replace_chr (CHR '','') ''.'' s) of
        f1 # f2 # f3 # rest \<Rightarrow>
          py_int f1 = None \<or> py_int f2 = None \<or> py_float f3 = None
          \<or> (\<exists>h m. py_int f1 = Some h \<and> py_int f2 = Some m
                \<and> int_to_float (h * 3600 + m * 60) = Inl OverflowError)
      | _ \<Rightarrow> True))
   \<and> (\<forall>f1 f2 f3 rest h m sec n.
         py_split (CHR '':'') (py_replace_chr (CHR '','') ''.'' s) = f1 # f2 # f3 # rest
         \<and> py_int f1 = Some h \<and> py_int f2 = Some m \<and> py_float f3 = Some sec
         \<and> int_to_float (h * 3600 + m * 60) = Inr n
         \<longrightarrow> parse_srt_time s = Inr (float_add n sec))
   \<and> (3 \<le> length (py_split (CHR '':'') (py_replace_chr (CHR '','') ''.'' s))
        \<longrightarrow> (\<forall>t. parse_srt_time (s @ CHR '':'' # t) = parse_srt_time s))"
proof (intro conjI allI impI)
  let ?parts = "py_split (CHR '':'') (py_replace_chr (CHR '','') ''.'' s)"
  consider (one) f1 where "?parts = [f1]" | (two) f1 f2 where "?parts = [f1, f2]"
    | (more) f1 f2 f3 rest where "?parts = f1 # f2 # f3 # rest"
    using py_split_shape [of "CHR '':''" "py_replace_chr (CHR '','') ''.'' s"] by blast
  then show "(\<exists>e. parse_srt_time s = Inl e) \<longleftrightarrow>
     (case ?parts of
        f1 # f2 # f3 # rest \<Rightarrow>
          py_int f1 = None \<or> py_int f2 = None \<or> py_float f3 = None
          \<or> (\<exists>h m. py_int f1 = Some h \<and> py_int f2 = Some m
                \<and> int_to_float (h * 3600 + m * 60) = Inl OverflowError)
      | _ \<Rightarrow> True)"
  proof cases
    case one
    then show ?thesis by (simp add: parse_srt_time_def Let_def split: option.splits)
  next
    case two
    then show ?thesis by (simp add: parse_srt_time_def Let_def split: option.splits)
  next
    case more
    show ?thesis
    proof (cases "py_int f1")
      case None
      then show ?thesis using more by (simp add: parse_srt_time_def Let_def)
    next
      case h: (Some h)
      show ?thesis
      proof (cases "py_int f2")
        case None
        then show ?thesis using more h by (simp add: parse_srt_time_def Let_def)
      next
        case m: (Some m)
        show ?thesis
        proof (cases "py_float f3")
          case None
          then show ?thesis using more h m by (simp add: parse_srt_time_def Let_def)
        next
          case (Some sec)
          then show ?thesis
            using more h m int_to_float_cases [of "h * 3600 + m * 60"]
            by (auto simp: parse_srt_time_def Let_def)
        qed
      qed
    qed
  qed
next
  fix f1 f2 f3 rest h m sec n
  assume "py_split (CHR '':'') (py_replace_chr (CHR '','') ''.'' s) = f1 # f2 # f3 # rest
    \<and> py_int f1 = Some h \<and> py_int f2 = Some m \<and> py_float f3 = Some sec
    \<and> int_to_float (h * 3600 + m * 60) = Inr n"
  then show "parse_srt_time s = Inr (float_add n sec)"
    by (simp add: parse_srt_time_more)
next
  fix t
  assume "3 \<le> length (py_split (CHR '':'') (py_replace_chr (CHR '','') ''.'' s))"
  then show "parse_srt_time (s @ CHR '':'' # t) = parse_srt_time s"
    by (rule parse_srt_time_extra_field)
qed

lemma small_examples:
  "py_int ''01'' = Some 1" "py_int ''02'' = Some 2" "py_float ''03'' = Some (Finite 3)"
  "int_to_float (1 * 3600 + 2 * 60) = Inr (Finite 3720)"
  "float_add (Finite 3720) (Finite 3) = Finite 3723"
proof -
  show "py_int ''01'' = Some 1" "py_int ''02'' = Some 2"
    using py_int_two_digits [of "CHR ''0''" "CHR ''1''"] py_int_two_digits [of "CHR ''0''" "CHR ''2''"]
    by (simp_all add: digit_chars digit_vals)
  show "py_float ''03'' = Some (Finite 3)"
    using round_binary64_of_int [of 3]
    by (simp add: py_float_def num_strip_def num_isspace_def split_sign_def float_number_def
        is_e_def py_isdigit_def digits_val_def digit_vals pow10_def)
  show "int_to_float (1 * 3600 + 2 * 60) = Inr (Finite 3720)"
    using int_to_float_small [of 3720] by simp
  show "float_add (Finite 3720) (Finite 3) = Finite 3723"
    using round_binary64_of_int [of 3723] by simp
qed

theorem parse_srt_time_fails_iff_witness:
  "(\<exists>e. parse_srt_time ''01:02'' = Inl e)
   \<and> py_split (CHR '':'') (py_replace_chr (CHR '','') ''.'' ''01:02:03'') = [''01'', ''02'', ''03'']
   \<and> parse_srt_time ''01:02:03'' = Inr (Finite 3723)
   \<and> parse_srt_time ''01:02:03:04'' = Inr (Finite 3723)
   \<and> parse_srt_time ''01:02:03:'' = Inr (Finite 3723)"
proof -
  have sp: "py_split (CHR '':'') (py_replace_chr (CHR '','') ''.'' ''01:02:03'') = [''01'', ''02'', ''03'']"
    by (simp add: py_replace_chr_def)
  have a: "\<exists>e. parse_srt_time ''01:02'' = Inl e"
    using parse_srt_time_fails_iff [of "''01:02''"] by (simp add: py_replace_chr_def)
  note inst = parse_srt_time_fails_iff [of "''01:02:03''"]
  from inst sp small_examples(1,2,3,4)
  have "parse_srt_time ''01:02:03'' = Inr (float_add (Finite 3720) (Finite 3))"
    by blast
  then have b: "parse_srt_time ''01:02:03'' = Inr (Finite 3723)"
    by (simp only: small_examples(5))
  have l: "3 \<le> length (py_split (CHR '':'') (py_replace_chr (CHR '','') ''.'' ''01:02:03''))"
    by (simp only: sp) simp
  from inst l have ext: "\<forall>t. parse_srt_time (''01:02:03'' @ CHR '':'' # t) = parse_srt_time ''01:02:03''"
    by blast
  have c: "parse_srt_time ''01:02:03:04'' = Inr (Finite 3723)"
    using ext [rule_format, of "''04''"] b by simp
  have d: "parse_srt_time ''01:02:03:'' = Inr (Finite 3723)"
    using ext [rule_format, of "[]"] b by simp
  show ?thesis using a sp b c d by simp
qed

text \<open>
  The claim as the specification states it fails on four fields: \<^verbatim>\<open>01:02:03:04\<close> has four
  fields and converts to 3723.0, the fourth field ignored.
\<close>

theorem four_fields_accepted:
  "length (py_split (CHR '':'') (py_replace_chr (CHR '','') ''.'' ''01:02:03:04'')) = 4
   \<and> parse_srt_time ''01:02:03:04'' = Inr (Finite 3723)"
proof -
  have r: "round_binary64 3723 = Finite 3723"
    using round_binary64_of_int [of 3723] by simp
  show ?thesis
    using small_examples(1,2,3,4)
    by (simp add: parse_srt_time_def Let_def py_replace_chr_def r)
qed

text \<open>The last alternative does occur: an integer from \<open>2 ^ 1024\<close> on does not fit a float.\<close>

lemma int_to_float_overflow:
  assumes "2 ^ 1024 \<le> n"
  shows "int_to_float n = Inl OverflowError"
proof -
  have "(of_int (2 ^ 1024) :: rat) \<le> of_int n" using assms by (simp only: of_int_le_iff)
  moreover have "pow2 1024 = of_int (2 ^ 1024)" by (simp add: pow2_def)
  ultimately have "pow2 1024 \<le> of_int n" by simp
  then show ?thesis by (simp add: int_to_float_def round_binary64_overflow)
qed

text \<open>
  \<^verbatim>\<open>int\<close> does not skip the separators \<^verbatim>\<open>\x1c\<close> to \<^verbatim>\<open>\x1f\<close>, which
  \<^verbatim>\<open>str.strip\<close> removes, and it refuses more than 4300 digits.
\<close>

lemma separator_not_trimmed:
  "py_strip (CHR 0x1C # ''01'') = ''01''" "py_int (CHR 0x1C # ''01'') = None"
  "parse_srt_time (CHR 0x1C # ''01:02:03'') = Inl ValueError"
proof -
  show "py_strip (CHR 0x1C # ''01'') = ''01''"
    by (simp add: py_strip_def py_isspace_def)
  show i: "py_int (CHR 0x1C # ''01'') = None"
    by (simp add: py_int_def num_strip_def num_isspace_def split_sign_def py_isdigit_def)
  show "parse_srt_time (CHR 0x1C # ''01:02:03'') = Inl ValueError"
    by (simp add: parse_srt_time_def Let_def py_replace_chr_def i)
qed

lemma digitpart_replicate: "digitpart (replicate (Suc n) (CHR ''0''))"
  by (induction n) (simp_all add: py_isdigit_def)

lemma digits_val_replicate: "digits_val (replicate n (CHR ''0'')) = 0"
proof -
  have f: "filter py_isdigit (replicate n (CHR ''0'')) = replicate n (CHR ''0'')"
    by (simp add: py_isdigit_def)
  have "foldl (\<lambda>a c. 10 * a + digit_val c) 0 (replicate n (CHR ''0'')) = 0"
    by (induction n) (simp_all add: digit_vals)
  then show ?thesis by (simp add: digits_val_def f)
qed

lemma num_strip_replicate:
  "num_strip (replicate n (CHR ''0'')) = replicate n (CHR ''0'')"
proof -
  have d: "dropWhile num_isspace (replicate n (CHR ''0'')) = replicate n (CHR ''0'')"
    by (cases n) (simp_all add: num_isspace_def)
  show ?thesis by (simp add: num_strip_def d num_isspace_def)
qed

lemma too_many_digits:
  "py_int (replicate 4300 (CHR ''0'')) = Some 0" "py_int (replicate 4301 (CHR ''0'')) = None"
proof -
  have s: "split_sign (replicate (Suc n) (CHR ''0'')) = (False, replicate (Suc n) (CHR ''0''))" for n
    by (simp add: split_sign_def)
  have f: "length (filter py_isdigit (replicate n (CHR ''0''))) = n" for n
    by (simp add: py_isdigit_def)
  have a: "py_int (replicate (Suc 4299) (CHR ''0'')) = Some 0"
    unfolding py_int_def num_strip_replicate s
    by (simp only: prod.case Let_def digitpart_replicate f digits_val_replicate int_max_str_digits_def)
      simp
  have b: "py_int (replicate (Suc 4300) (CHR ''0'')) = None"
    unfolding py_int_def num_strip_replicate s
    by (simp only: prod.case Let_def digitpart_replicate f digits_val_replicate int_max_str_digits_def)
      simp
  show "py_int (replicate 4300 (CHR ''0'')) = Some 0" using a by simp
  show "py_int (replicate 4301 (CHR ''0'')) = None" using b by simp
qed

section \<open>The order of the blocks, the records and the layers\<close>

lemma re_split_blocks_nonempty: "re_split_blocks s \<noteq> []"
  by (induction s rule: re_split_blocks.induct)
    (auto simp: neq_Nil_conv split: option.splits elim: cons_head.elims)

lemma interleave_cons_head:
  "bs \<noteq> [] \<Longrightarrow> interleave (cons_head c bs) gs = c # interleave bs gs"
  by (cases bs; cases gs) simp_all

lemma LF_isspace: "py_isspace LF"
  by (simp add: py_isspace_def LF_def)

lemma take_drop_last_run:
  "take (length run - length (takeWhile P (rev run))) run = rev (dropWhile P (rev run))"
proof -
  have "rev run = takeWhile P (rev run) @ dropWhile P (rev run)" by simp
  then have "run = rev (dropWhile P (rev run)) @ rev (takeWhile P (rev run))"
    by (metis rev_append rev_rev_ident)
  moreover have "length (rev (dropWhile P (rev run)))
      = length run - length (takeWhile P (rev run))"
    by (metis length_rev length_append add_diff_cancel_left' takeWhile_dropWhile_id)
  ultimately show ?thesis
    by (metis append_eq_conv_conj)
qed

lemma blank_gap_Some:
  assumes "blank_gap cs = Some k"
  shows "k \<le> length cs \<and> is_gap (LF # take k cs)"
proof -
  define run where "run = takeWhile py_isspace cs"
  define tl where "tl = rev (dropWhile (\<lambda>c. c \<noteq> LF) (rev run))"
  from assms have lf: "LF \<in> set run"
    and k: "k = length run - length (takeWhile (\<lambda>c. c \<noteq> LF) (rev run))"
    by (auto simp: blank_gap_def Let_def run_def split: if_splits)
  have kl: "k \<le> length run" using k by simp
  have pre: "take k cs = take k run"
    using kl unfolding run_def
    by (metis append_eq_conv_conj min.absorb2 take_take takeWhile_dropWhile_id linorder_linear min.absorb1)
  have t: "take k run = tl" unfolding k tl_def by (rule take_drop_last_run)
  have "dropWhile (\<lambda>c. c \<noteq> LF) (rev run) \<noteq> []" using lf by (simp add: dropWhile_eq_Nil_conv)
  moreover then have "hd (dropWhile (\<lambda>c. c \<noteq> LF) (rev run)) = LF"
    using hd_dropWhile [of "\<lambda>c. c \<noteq> LF" "rev run"] by simp
  ultimately have ne: "tl \<noteq> []" and la: "last tl = LF"
    by (simp_all add: tl_def last_rev)
  have "set tl \<subseteq> set run" unfolding tl_def using set_dropWhileD by fastforce
  moreover have "\<forall>c \<in> set run. py_isspace c" unfolding run_def by (auto dest: set_takeWhileD)
  ultimately have sp: "list_all py_isspace tl" by (auto simp: list_all_iff)
  have "length run \<le> length cs" unfolding run_def by (rule length_takeWhile_le)
  then have "k \<le> length cs" using kl by simp
  moreover have "is_gap (LF # tl)"
    using ne la sp by (cases tl) (simp_all add: is_gap_def LF_isspace)
  ultimately show ?thesis by (simp add: pre t)
qed

lemma blocks_in_document:
  "\<exists>gaps. length gaps + 1 = length (re_split_blocks s) \<and> list_all is_gap gaps
     \<and> interleave (re_split_blocks s) gaps = s"
proof (induction s rule: re_split_blocks.induct)
  case 1
  show ?case by (intro exI [of _ "[]"]) simp
next
  case (2 c cs)
  show ?case
  proof (cases "c = LF \<and> blank_gap cs \<noteq> None")
    case True
    then obtain k where k: "blank_gap cs = Some k" and c: "c = LF" by auto
    from "2.IH"(2) [OF c k] obtain gaps where
      g: "length gaps + 1 = length (re_split_blocks (drop k cs))" "list_all is_gap gaps"
        "interleave (re_split_blocks (drop k cs)) gaps = drop k cs"
      by blast
    from blank_gap_Some [OF k] have gk: "is_gap (LF # take k cs)" by simp
    have "length ((LF # take k cs) # gaps) + 1 = length (re_split_blocks (c # cs))"
      "list_all is_gap ((LF # take k cs) # gaps)"
      "interleave (re_split_blocks (c # cs)) ((LF # take k cs) # gaps) = c # cs"
      using g gk by (simp_all add: c k)
    then show ?thesis by blast
  next
    case False
    then have r: "re_split_blocks (c # cs) = cons_head c (re_split_blocks cs)"
      by (auto split: option.splits)
    have "\<exists>gaps. length gaps + 1 = length (re_split_blocks cs) \<and> list_all is_gap gaps
       \<and> interleave (re_split_blocks cs) gaps = cs"
    proof (cases "c = LF")
      case True
      then have "blank_gap cs = None" using False by simp
      with True show ?thesis by (rule "2.IH"(1))
    next
      case False
      then show ?thesis by (rule "2.IH"(3))
    qed
    then obtain gaps where
      g: "length gaps + 1 = length (re_split_blocks cs)" "list_all is_gap gaps"
        "interleave (re_split_blocks cs) gaps = cs"
      by blast
    have len: "length (cons_head c (re_split_blocks cs)) = length (re_split_blocks cs)"
      using re_split_blocks_nonempty [of cs] by (cases "re_split_blocks cs") simp_all
    have "length gaps + 1 = length (re_split_blocks (c # cs))" "list_all is_gap gaps"
      "interleave (re_split_blocks (c # cs)) gaps = c # cs"
      using g by (simp_all only: r len interleave_cons_head [OF re_split_blocks_nonempty])
    then show ?thesis by blast
  qed
qed

lemma py_strip_in_content:
  "\<exists>pre post. content = pre @ py_strip content @ post
     \<and> list_all py_isspace pre \<and> list_all py_isspace post"
proof -
  define pre where "pre = takeWhile py_isspace content"
  define mid where "mid = dropWhile py_isspace content"
  define post where "post = rev (takeWhile py_isspace (rev mid))"
  have "rev mid = takeWhile py_isspace (rev mid) @ dropWhile py_isspace (rev mid)" by simp
  then have "mid = rev (dropWhile py_isspace (rev mid)) @ post"
    unfolding post_def by (metis rev_append rev_rev_ident)
  then have "content = pre @ py_strip content @ post"
    unfolding py_strip_def pre_def mid_def [symmetric]
    by (metis mid_def takeWhile_dropWhile_id)
  moreover have "list_all py_isspace pre" "list_all py_isspace post"
    unfolding pre_def post_def by (auto simp: list_all_iff dest: set_takeWhileD)
  ultimately show ?thesis by blast
qed

text \<open>No block holds a match of the separator pattern.\<close>

lemma takeWhile_hd_block:
  "LF \<notin> set (takeWhile py_isspace cs) \<Longrightarrow>
     takeWhile py_isspace (hd (re_split_blocks cs)) = takeWhile py_isspace cs"
proof (induction cs)
  case Nil
  show ?case by simp
next
  case (Cons d ds)
  show ?case
  proof (cases "py_isspace d")
    case False
    then have "d \<noteq> LF" using LF_isspace by auto
    then show ?thesis using False by (simp add: hd_cons_head re_split_blocks_nonempty)
  next
    case True
    then have "d \<noteq> LF" "LF \<notin> set (takeWhile py_isspace ds)" using Cons.prems by auto
    then show ?thesis using True Cons.IH by (simp add: hd_cons_head re_split_blocks_nonempty)
  qed
qed

lemma blank_gap_hd_block:
  assumes "blank_gap cs = None"
  shows "blank_gap (hd (re_split_blocks cs)) = None"
proof -
  from assms have "LF \<notin> set (takeWhile py_isspace cs)"
    by (auto simp: blank_gap_def Let_def split: if_splits)
  then show ?thesis using takeWhile_hd_block [of cs] by (simp add: blank_gap_def Let_def)
qed

lemma blocks_gap_free: "list_all gap_free (re_split_blocks s)"
proof (induction s rule: re_split_blocks.induct)
  case 1
  show ?case by simp
next
  case (2 c cs)
  show ?case
  proof (cases "c = LF \<and> blank_gap cs \<noteq> None")
    case True
    then obtain k where k: "blank_gap cs = Some k" and c: "c = LF" by auto
    from "2.IH"(2) [OF c k] show ?thesis by (simp add: c k)
  next
    case False
    then have r: "re_split_blocks (c # cs) = cons_head c (re_split_blocks cs)"
      by (auto split: option.splits)
    have ih: "list_all gap_free (re_split_blocks cs)"
    proof (cases "c = LF")
      case True
      then have "blank_gap cs = None" using False by simp
      with True show ?thesis by (rule "2.IH"(1))
    next
      case False
      then show ?thesis by (rule "2.IH"(3))
    qed
    obtain b bs where b: "re_split_blocks cs = b # bs"
      using re_split_blocks_nonempty [of cs] by (cases "re_split_blocks cs") auto
    have "c \<noteq> LF \<or> blank_gap b = None"
      using False blank_gap_hd_block [of cs] b by auto
    then show ?thesis using ih unfolding r b by simp
  qed
qed

lemma gap_free_append: "gap_free (u @ v) \<Longrightarrow> gap_free v"
  by (induction u) simp_all

lemma is_gap_not_free:
  assumes "is_gap g"
  shows "\<not> gap_free (u @ g @ v)"
proof
  assume "gap_free (u @ g @ v)"
  then have f: "gap_free (g @ v)" by (rule gap_free_append)
  from assms obtain t where g: "g = LF # t" and t: "t \<noteq> []" "last t = LF" "list_all py_isspace t"
    by (cases g) (auto simp: is_gap_def Suc_le_eq split: if_splits)
  have "takeWhile py_isspace (t @ v) = t @ takeWhile py_isspace v"
    using t(3) by (simp add: takeWhile_append2 list_all_iff)
  moreover have "LF \<in> set t" using t(1,2) last_in_set by metis
  ultimately have "blank_gap (t @ v) \<noteq> None"
    by (simp add: blank_gap_def Let_def)
  then show False using f by (simp add: g)
qed

lemma blocks_hold_no_gap: "list_all (\<lambda>b. \<not> has_gap b) (re_split_blocks s)"
proof -
  have "\<not> has_gap b" if "gap_free b" for b
  proof
    assume "has_gap b"
    then obtain g where "sublist g b" "is_gap g"
      by (auto simp: has_gap_def list_ex_iff)
    then obtain u v where "b = u @ g @ v" by (auto simp: sublist_def)
    then show False using that \<open>is_gap g\<close> is_gap_not_free by auto
  qed
  then show ?thesis using blocks_gap_free [of s] by (auto simp: list_all_iff)
qed

lemma caption_block_shape:
  assumes "caption_block rt w h i cap = Inr b"
  shows "\<exists>ls. b = [LF] @ unlines ls \<and> length ls = 22
     \<and> ls ! 0 = ''// Caption '' @ show_nat (i + 1) @ '': '' @ cap_sequence cap
     \<and> ls ! 1 = add_text_line (show_nat (i + 1)) (safe_text (cap_text cap))
     \<and> ls ! 15 = ''textLayer'' @ show_nat (i + 1) @ ''.startTime = ''
                   @ repr_float rt (cap_start cap) @ '';''
     \<and> ls ! 16 = ''textLayer'' @ show_nat (i + 1) @ ''.outPoint = ''
                   @ repr_float rt (cap_end cap) @ '';''
     \<and> ls ! 17 = ''textLayer'' @ show_nat (i + 1) @ ''.inPoint = ''
                   @ repr_float rt (cap_start cap) @ '';''"
proof (cases "py_truediv w 2")
  case (Inl e)
  have "caption_block rt w h i cap = Inl e"
    unfolding caption_block_def Let_def Inl by (simp only: sum.case)
  then show ?thesis using assms by simp
next
  case (Inr half)
  have "\<exists>ls. caption_block rt w h i cap = Inr ([LF] @ unlines ls) \<and> length ls = 22
     \<and> ls ! 0 = ''// Caption '' @ show_nat (i + 1) @ '': '' @ cap_sequence cap
     \<and> ls ! 1 = add_text_line (show_nat (i + 1)) (safe_text (cap_text cap))
     \<and> ls ! 15 = ''textLayer'' @ show_nat (i + 1) @ ''.startTime = ''
                   @ repr_float rt (cap_start cap) @ '';''
     \<and> ls ! 16 = ''textLayer'' @ show_nat (i + 1) @ ''.outPoint = ''
                   @ repr_float rt (cap_end cap) @ '';''
     \<and> ls ! 17 = ''textLayer'' @ show_nat (i + 1) @ ''.inPoint = ''
                   @ repr_float rt (cap_start cap) @ '';''"
    unfolding caption_block_def Let_def Inr add_text_line_def
    by (simp only: sum.case) (intro exI conjI, rule refl, simp_all)
  then show ?thesis using assms by auto
qed

lemma generate_jsx_script_layers:
  assumes "generate_jsx_script rt captions comp_name w h fps = Inr out"
  shows "\<exists>m bs. py_max (map cap_end captions) = Inr m
     \<and> out = script_header rt comp_name w h (float_add m (Finite 2)) fps @ concat bs
             @ script_footer
     \<and> list_all2
          (\<lambda>(i, cap) b. \<exists>ls. b = [LF] @ unlines ls \<and> length ls = 22
             \<and> ls ! 0 = ''// Caption '' @ show_nat (i + 1) @ '': '' @ cap_sequence cap
             \<and> ls ! 1 = add_text_line (show_nat (i + 1)) (safe_text (cap_text cap))
             \<and> ls ! 15 = ''textLayer'' @ show_nat (i + 1) @ ''.startTime = ''
                           @ repr_float rt (cap_start cap) @ '';''
             \<and> ls ! 16 = ''textLayer'' @ show_nat (i + 1) @ ''.outPoint = ''
                           @ repr_float rt (cap_end cap) @ '';''
             \<and> ls ! 17 = ''textLayer'' @ show_nat (i + 1) @ ''.inPoint = ''
                           @ repr_float rt (cap_start cap) @ '';'')
          (enumerate 0 captions) bs"
proof -
  from generate_jsx_script_Inr [OF assms] obtain m bs where
    m: "py_max (map cap_end captions) = Inr m"
    and bs: "list_all2 (\<lambda>(k, cap) b. caption_block rt w h k cap = Inr b) (enumerate 0 captions) bs"
    and out: "out = script_header rt comp_name w h (float_add m (Finite 2)) fps @ concat bs
                @ script_footer"
    by blast
  from bs have "list_all2
          (\<lambda>(i, cap) b. \<exists>ls. b = [LF] @ unlines ls \<and> length ls = 22
             \<and> ls ! 0 = ''// Caption '' @ show_nat (i + 1) @ '': '' @ cap_sequence cap
             \<and> ls ! 1 = add_text_line (show_nat (i + 1)) (safe_text (cap_text cap))
             \<and> ls ! 15 = ''textLayer'' @ show_nat (i + 1) @ ''.startTime = ''
                           @ repr_float rt (cap_start cap) @ '';''
             \<and> ls ! 16 = ''textLayer'' @ show_nat (i + 1) @ ''.outPoint = ''
                           @ repr_float rt (cap_end cap) @ '';''
             \<and> ls ! 17 = ''textLayer'' @ show_nat (i + 1) @ ''.inPoint = ''
                           @ repr_float rt (cap_start cap) @ '';'')
          (enumerate 0 captions) bs"
  proof (rule list_all2_mono)
    fix x b
    assume "(case x of (k, cap) \<Rightarrow> \<lambda>b. caption_block rt w h k cap = Inr b) b"
    then obtain k cap where x: "x = (k, cap)" and c: "caption_block rt w h k cap = Inr b"
      by (cases x) auto
    show "(case x of (i, cap) \<Rightarrow> \<lambda>b. \<exists>ls. b = [LF] @ unlines ls \<and> length ls = 22
             \<and> ls ! 0 = ''// Caption '' @ show_nat (i + 1) @ '': '' @ cap_sequence cap
             \<and> ls ! 1 = add_text_line (show_nat (i + 1)) (safe_text (cap_text cap))
             \<and> ls ! 15 = ''textLayer'' @ show_nat (i + 1) @ ''.startTime = ''
                           @ repr_float rt (cap_start cap) @ '';''
             \<and> ls ! 16 = ''textLayer'' @ show_nat (i + 1) @ ''.outPoint = ''
                           @ repr_float rt (cap_end cap) @ '';''
             \<and> ls ! 17 = ''textLayer'' @ show_nat (i + 1) @ ''.inPoint = ''
                           @ repr_float rt (cap_start cap) @ '';'') b"
      unfolding x using caption_block_shape [OF c] by (simp only: prod.case)
  qed
  with m out show ?thesis by blast
qed

lemma generate_jsx_entries:
  "generate_jsx rt subtitles comp_name w h fps =
     jsx_header comp_name w h fps
     @ concat (map (\<lambda>(i, sub).
                  ''    {start: '' @ format_3f rt (sub_start sub) @ '', end: ''
                    @ format_3f rt (sub_end sub) @ '', text: '' @ [DQ] @ sub_text sub @ [DQ] @ ''}''
                    @ (if int i < int (length subtitles) - 1 then '','' else []) @ [LF])
               (enumerate 0 subtitles))
     @ jsx_footer"
  unfolding generate_jsx_eq jsx_entry_def by (simp only: append_assoc)

lemma blocks_of_document:
  "\<exists>pre post gaps.
      content = pre @ interleave (re_split_blocks (py_strip content)) gaps @ post
      \<and> list_all py_isspace pre \<and> list_all py_isspace post
      \<and> length gaps + 1 = length (re_split_blocks (py_strip content))
      \<and> list_all is_gap gaps"
proof -
  from py_strip_in_content [of content] obtain pre post where
    c: "content = pre @ py_strip content @ post" "list_all py_isspace pre" "list_all py_isspace post"
    by blast
  from blocks_in_document [of "py_strip content"] obtain gaps where
    g: "length gaps + 1 = length (re_split_blocks (py_strip content))" "list_all is_gap gaps"
      "interleave (re_split_blocks (py_strip content)) gaps = py_strip content"
    by blast
  have "content = pre @ interleave (re_split_blocks (py_strip content)) gaps @ post"
    unfolding g(3) by (rule c(1))
  with c(2,3) g(1,2) show ?thesis by blast
qed

text \<open>
  C9. The blocks that each parser goes through are the pieces of the document, in the order
  of the document: the document is white space, then the blocks with a match of
  \<^verbatim>\<open>\n\s*\n\<close> between each two, then white space, and no block holds such a match. Each
  parser returns the records of the accepted blocks in the order of the blocks (the parser of
  \<^verbatim>\<open>srt_to_jsx_converter.py\<close> when it returns at all). \<^verbatim>\<open>generate_jsx_script\<close> emits its
  header, then for each caption, in the order of the list, one block of 22 lines that starts
  with the comment holding the caption's number and sequence, creates the layer with the
  caption's escaped text and sets the layer's times from the caption, then its footer.
  \<^verbatim>\<open>generate_jsx\<close> emits one entry of its array for each record, in that order.
\<close>

theorem records_and_layers_in_source_order:
  "(\<exists>pre post gaps.
      content = pre @ interleave (re_split_blocks (py_strip content)) gaps @ post
      \<and> list_all py_isspace pre \<and> list_all py_isspace post
      \<and> length gaps + 1 = length (re_split_blocks (py_strip content))
      \<and> list_all is_gap gaps)
   \<and> list_all (\<lambda>b. \<not> has_gap b) (re_split_blocks (py_strip content))
   \<and> parse_srt_text content = Inr (List.map_filter accepted (re_split_blocks (py_strip content)))
   \<and> (parse_srt_text_conv content = Inr caps \<longrightarrow>
        caps = List.map_filter accepted_conv (re_split_blocks (py_strip content)))
   \<and> (generate_jsx_script rt captions comp_name w h fps = Inr out \<longrightarrow>
        (\<exists>m bs. py_max (map cap_end captions) = Inr m
           \<and> out = script_header rt comp_name w h (float_add m (Finite 2)) fps @ concat bs
                   @ script_footer
           \<and> list_all2
                (\<lambda>(i, cap) b. \<exists>ls. b = [LF] @ unlines ls \<and> length ls = 22
                   \<and> ls ! 0 = ''// Caption '' @ show_nat (i + 1) @ '': '' @ cap_sequence cap
                   \<and> ls ! 1 = add_text_line (show_nat (i + 1)) (safe_text (cap_text cap))
                   \<and> ls ! 15 = ''textLayer'' @ show_nat (i + 1) @ ''.startTime = ''
                                 @ repr_float rt (cap_start cap) @ '';''
                   \<and> ls ! 16 = ''textLayer'' @ show_nat (i + 1) @ ''.outPoint = ''
                                 @ repr_float rt (cap_end cap) @ '';''
                   \<and> ls ! 17 = ''textLayer'' @ show_nat (i + 1) @ ''.inPoint = ''
                                 @ repr_float rt (cap_start cap) @ '';'')
                (enumerate 0 captions) bs))
   \<and> generate_jsx rt subtitles comp_name w h fps =
        jsx_header comp_name w h fps
        @ concat (map (\<lambda>(i, sub).
                     ''    {start: '' @ format_3f rt (sub_start sub) @ '', end: ''
                       @ format_3f rt (sub_end sub) @ '', text: '' @ [DQ] @ sub_text sub @ [DQ]
                       @ ''}''
                       @ (if int i < int (length subtitles) - 1 then '','' else []) @ [LF])
                  (enumerate 0 subtitles))
        @ jsx_footer"
proof (intro conjI impI)
  show "\<exists>pre post gaps.
      content = pre @ interleave (re_split_blocks (py_strip content)) gaps @ post
      \<and> list_all py_isspace pre \<and> list_all py_isspace post
      \<and> length gaps + 1 = length (re_split_blocks (py_strip content))
      \<and> list_all is_gap gaps"
    by (rule blocks_of_document)
next
  show "list_all (\<lambda>b. \<not> has_gap b) (re_split_blocks (py_strip content))"
    by (rule blocks_hold_no_gap)
next
  show "parse_srt_text content = Inr (List.map_filter accepted (re_split_blocks (py_strip content)))"
    by (rule parse_srt_text_eq)
next
  assume "parse_srt_text_conv content = Inr caps"
  then show "caps = List.map_filter accepted_conv (re_split_blocks (py_strip content))"
    by (simp add: parse_srt_text_conv_eq split: option.splits)
next
  assume "generate_jsx_script rt captions comp_name w h fps = Inr out"
  then show "\<exists>m bs. py_max (map cap_end captions) = Inr m
           \<and> out = script_header rt comp_name w h (float_add m (Finite 2)) fps @ concat bs
                   @ script_footer
           \<and> list_all2
                (\<lambda>(i, cap) b. \<exists>ls. b = [LF] @ unlines ls \<and> length ls = 22
                   \<and> ls ! 0 = ''// Caption '' @ show_nat (i + 1) @ '': '' @ cap_sequence cap
                   \<and> ls ! 1 = add_text_line (show_nat (i + 1)) (safe_text (cap_text cap))
                   \<and> ls ! 15 = ''textLayer'' @ show_nat (i + 1) @ ''.startTime = ''
                                 @ repr_float rt (cap_start cap) @ '';''
                   \<and> ls ! 16 = ''textLayer'' @ show_nat (i + 1) @ ''.outPoint = ''
                                 @ repr_float rt (cap_end cap) @ '';''
                   \<and> ls ! 17 = ''textLayer'' @ show_nat (i + 1) @ ''.inPoint = ''
                                 @ repr_float rt (cap_start cap) @ '';'')
                (enumerate 0 captions) bs"
    by (rule generate_jsx_script_layers)
next
  show "generate_jsx rt subtitles comp_name w h fps =
        jsx_header comp_name w h fps
        @ concat (map (\<lambda>(i, sub).
                     ''    {start: '' @ format_3f rt (sub_start sub) @ '', end: ''
                       @ format_3f rt (sub_end sub) @ '', text: '' @ [DQ] @ sub_text sub @ [DQ]
                       @ ''}''
                       @ (if int i < int (length subtitles) - 1 then '','' else []) @ [LF])
                  (enumerate 0 subtitles))
        @ jsx_footer"
    by (rule generate_jsx_entries)
qed

lemma two_cue_blocks:
  "py_strip two_cue_doc = two_cue_doc"
  "re_split_blocks two_cue_doc =
     [''1\<newline>00:00:01,000 --> 00:00:03,000\<newline>Hello world'',
      ''2\<newline>00:00:04,500 --> 00:00:06,000\<newline>Second line'']"
  "two_cue_doc = interleave
     [''1\<newline>00:00:01,000 --> 00:00:03,000\<newline>Hello world'',
      ''2\<newline>00:00:04,500 --> 00:00:06,000\<newline>Second line''] [[LF, LF]]"
  by (simp_all add: py_strip_def two_cue_doc_def blank_gap_def LF_def py_isspace_def)

lemma second_cue_block:
  "parse_block ''2\<newline>00:00:04,500 --> 00:00:06,000\<newline>Second line'' =
     Inr (Some \<lparr>sub_start = Finite (9 / 2), sub_end = Finite 6, sub_text = ''Second line''\<rparr>)"
  "parse_block_conv ''2\<newline>00:00:04,500 --> 00:00:06,000\<newline>Second line'' = Inr (Some cue2)"
proof -
  have m: "re_match_time_line ''00:00:04,500 --> 00:00:06,000'' = Some (''00:00:04,500'', ''00:00:06,000'')"
    by (simp add: re_match_time_line_def timestamp_pat_def arrow_pat_def py_isdigit_def
        py_isspace_def)
  show "parse_block ''2\<newline>00:00:04,500 --> 00:00:06,000\<newline>Second line'' =
     Inr (Some \<lparr>sub_start = Finite (9 / 2), sub_end = Finite 6, sub_text = ''Second line''\<rparr>)"
    by (simp add: parse_block_def block_lines_def py_strip_def py_isspace_def LF_def
        m parse_srt_time_examples parse_srt_time_four_and_a_half clean_text_def py_replace_chr_def
        DQ_def BS_def)
  show "parse_block_conv ''2\<newline>00:00:04,500 --> 00:00:06,000\<newline>Second line'' = Inr (Some cue2)"
    by (simp add: parse_block_conv_def block_lines_def py_strip_def py_isspace_def LF_def
        py_split_str_def parse_srt_time_examples parse_srt_time_four_and_a_half cue2_def)
qed

lemma two_cue_parse:
  "parse_srt_text two_cue_doc =
     Inr [\<lparr>sub_start = Finite 1, sub_end = Finite 3, sub_text = ''Hello world''\<rparr>,
          \<lparr>sub_start = Finite (9 / 2), sub_end = Finite 6, sub_text = ''Second line''\<rparr>]"
  "parse_srt_text_conv two_cue_doc = Inr [cue1, cue2]"
  by (simp_all add: parse_srt_text_def parse_srt_text_conv_def two_cue_blocks(1,2) garbled_block1
      garbled_block1_conv second_cue_block cue1_def)

theorem records_and_layers_in_source_order_witness:
  "re_split_blocks (py_strip two_cue_doc) =
     [''1\<newline>00:00:01,000 --> 00:00:03,000\<newline>Hello world'',
      ''2\<newline>00:00:04,500 --> 00:00:06,000\<newline>Second line'']
   \<and> two_cue_doc = interleave
        [''1\<newline>00:00:01,000 --> 00:00:03,000\<newline>Hello world'',
         ''2\<newline>00:00:04,500 --> 00:00:06,000\<newline>Second line''] [[LF, LF]]
   \<and> parse_srt_text two_cue_doc =
       Inr [\<lparr>sub_start = Finite 1, sub_end = Finite 3, sub_text = ''Hello world''\<rparr>,
            \<lparr>sub_start = Finite (9 / 2), sub_end = Finite 6, sub_text = ''Second line''\<rparr>]
   \<and> parse_srt_text_conv two_cue_doc = Inr [cue1, cue2]
   \<and> List.map_filter accepted_conv (re_split_blocks (py_strip two_cue_doc)) = [cue1, cue2]
   \<and> (\<exists>ls1 ls2.
         generate_jsx_script rt0 [cue1, cue2] ''Captions'' 1920 1080 30 =
           Inr (script_header rt0 ''Captions'' 1920 1080 (Finite 8) 30
                @ ([LF] @ unlines ls1) @ ([LF] @ unlines ls2) @ script_footer)
         \<and> ls1 ! 0 = ''// Caption 1: 1'' \<and> ls1 ! 1 = add_text_line ''1'' ''Hello world''
         \<and> ls2 ! 0 = ''// Caption 2: 2'' \<and> ls2 ! 1 = add_text_line ''2'' ''Second line'')"
proof -
  obtain x1 where x1: "caption_block rt0 1920 1080 0 cue1 = Inr x1"
    by (simp add: caption_block_def py_truediv_1920)
  obtain x2 where x2: "caption_block rt0 1920 1080 (Suc 0) cue2 = Inr x2"
    by (simp add: caption_block_def py_truediv_1920)
  have eight: "round_binary64 8 = Finite 8"
    using round_binary64_of_int [of 8] by simp
  have mx: "py_max (map cap_end [cue1, cue2]) = Inr (Finite 6)"
    by (simp add: py_max_def cue1_def cue2_def)
  have gen: "generate_jsx_script rt0 [cue1, cue2] ''Captions'' 1920 1080 30
      = Inr (script_header rt0 ''Captions'' 1920 1080 (Finite 8) 30 @ x1 @ x2 @ script_footer)"
    unfolding generate_jsx_script_def mx by (simp add: x1 x2 eight)
  note inst = records_and_layers_in_source_order [where content = two_cue_doc
      and caps = "[cue1, cue2]" and rt = rt0 and captions = "[cue1, cue2]"
      and comp_name = "''Captions''" and w = 1920 and h = 1080 and fps = 30
      and out = "script_header rt0 ''Captions'' 1920 1080 (Finite 8) 30 @ x1 @ x2 @ script_footer"]
  from inst two_cue_parse(2)
  have caps: "[cue1, cue2] = List.map_filter accepted_conv (re_split_blocks (py_strip two_cue_doc))"
    by blast
  from inst gen obtain m bs where
    m: "py_max (map cap_end [cue1, cue2]) = Inr m"
    and out: "script_header rt0 ''Captions'' 1920 1080 (Finite 8) 30 @ x1 @ x2 @ script_footer
       = script_header rt0 ''Captions'' 1920 1080 (float_add m (Finite 2)) 30 @ concat bs
         @ script_footer"
    and bs: "list_all2
          (\<lambda>(i, cap) b. \<exists>ls. b = [LF] @ unlines ls \<and> length ls = 22
             \<and> ls ! 0 = ''// Caption '' @ show_nat (i + 1) @ '': '' @ cap_sequence cap
             \<and> ls ! 1 = add_text_line (show_nat (i + 1)) (safe_text (cap_text cap))
             \<and> ls ! 15 = ''textLayer'' @ show_nat (i + 1) @ ''.startTime = ''
                           @ repr_float rt0 (cap_start cap) @ '';''
             \<and> ls ! 16 = ''textLayer'' @ show_nat (i + 1) @ ''.outPoint = ''
                           @ repr_float rt0 (cap_end cap) @ '';''
             \<and> ls ! 17 = ''textLayer'' @ show_nat (i + 1) @ ''.inPoint = ''
                           @ repr_float rt0 (cap_start cap) @ '';'')
          (enumerate 0 [cue1, cue2]) bs"
    by blast
  have m6: "m = Finite 6" using m mx by simp
  from bs obtain ls1 ls2 where
    b: "bs = [[LF] @ unlines ls1, [LF] @ unlines ls2]"
    and l1: "ls1 ! 0 = ''// Caption '' @ show_nat (Suc 0) @ '': '' @ cap_sequence cue1"
      "ls1 ! 1 = add_text_line (show_nat (Suc 0)) (safe_text (cap_text cue1))"
    and l2: "ls2 ! 0 = ''// Caption '' @ show_nat (Suc (Suc 0)) @ '': '' @ cap_sequence cue2"
      "ls2 ! 1 = add_text_line (show_nat (Suc (Suc 0))) (safe_text (cap_text cue2))"
    by (auto simp: list_all2_Cons1)
  have st: "safe_text ''Hello world'' = ''Hello world''" "safe_text ''Second line'' = ''Second line''"
    by (simp_all add: safe_text_def py_replace_chr_def DQ_def LF_def)
  have g: "generate_jsx_script rt0 [cue1, cue2] ''Captions'' 1920 1080 30 =
      Inr (script_header rt0 ''Captions'' 1920 1080 (Finite 8) 30
           @ ([LF] @ unlines ls1) @ ([LF] @ unlines ls2) @ script_footer)"
    unfolding gen using out by (simp add: b m6 eight)
  have e1: "ls1 ! 0 = ''// Caption 1: 1''" "ls1 ! 1 = add_text_line ''1'' ''Hello world''"
    using l1 by (simp_all add: digit_chr_def char_of_def bit_0 cue1_def st)
  have e2: "ls2 ! 0 = ''// Caption 2: 2''" "ls2 ! 1 = add_text_line ''2'' ''Second line''"
    using l2 by (simp_all add: digit_chr_def char_of_def bit_0 cue2_def st)
  from g e1 e2 have "\<exists>ls1 ls2.
         generate_jsx_script rt0 [cue1, cue2] ''Captions'' 1920 1080 30 =
           Inr (script_header rt0 ''Captions'' 1920 1080 (Finite 8) 30
                @ ([LF] @ unlines ls1) @ ([LF] @ unlines ls2) @ script_footer)
         \<and> ls1 ! 0 = ''// Caption 1: 1'' \<and> ls1 ! 1 = add_text_line ''1'' ''Hello world''
         \<and> ls2 ! 0 = ''// Caption 2: 2'' \<and> ls2 ! 1 = add_text_line ''2'' ''Second line''"
    by blast
  then show ?thesis
    using two_cue_blocks(2,3) two_cue_parse caps by (simp only: two_cue_blocks(1) simp_thms)
qed

end
